theory Spec2Isabelle
  imports Complex_Main
begin

section \<open>The proxy module: a shallow embedding\<close>

text \<open>
  This theory embeds the proxy module of the user script (proxy selection, statistics,
  the retrying request wrapper) and states properties of it.

  Conventions of the embedding.
  \<^item> JavaScript strings are \<^typ>\<open>string\<close>; endpoint strings are taken to be ASCII.
  \<^item> Counters, timestamps and response times are integral JavaScript numbers: \<^typ>\<open>int\<close>
    (\<^typ>\<open>nat\<close> for the 405 counter, which only ever is reset to 0 or incremented).
    \<open>NaN\<close> as the result of \<open>parseInt\<close> is \<open>None\<close>. The model of \<open>parseInt\<close> and
    of number formatting is exact for magnitudes below \<open>2^53\<close>.
  \<^item> Selection weights and \<open>Math.random()\<close> are \<^typ>\<open>real\<close>: the rounding of IEEE
    doubles is not modelled.
  \<^item> \<open>Date.now()\<close>, \<open>Math.random()\<close> and the answers of the network are inputs of the
    functions that read them.
  \<^item> The module's variables and the three \<open>localStorage\<close> items it uses form the
    record \<open>pstate\<close>, passed explicitly. Logging only writes to the console and is left out.
  \<^item> A callback runs from its start to its end without interruption, but the callbacks of
    the calls in flight alternate. A run of one call therefore takes, with each answer, what
    the others did to the state in between; and the steps of all calls together are a
    sequence of steps on the one state (\<open>module_steps\<close>).
\<close>

subsection \<open>JavaScript primitives\<close>

text \<open>\<open>String.prototype.split\<close> with a one-character separator: one more part than
  there are separators, and \<open>[""]\<close> for the empty string.\<close>

fun js_split :: "char \<Rightarrow> string \<Rightarrow> string list" where
  "js_split c [] = [[]]"
| "js_split c (x # xs) =
     (if x = c then [] # js_split c xs
      else (case js_split c xs of [] \<Rightarrow> [[x]] | p # ps \<Rightarrow> (x # p) # ps))"

text \<open>The parts joined again with the separator between them (as \<open>Array.prototype.join\<close>
  does); the module does not call it, the proofs about \<open>js_split\<close> do.\<close>

fun js_join :: "char \<Rightarrow> string list \<Rightarrow> string" where
  "js_join c [] = []"
| "js_join c [p] = p"
| "js_join c (p # q # ps) = p @ c # js_join c (q # ps)"

text \<open>The white space that \<open>parseInt\<close> skips (its ASCII part).\<close>

definition is_ws :: "char \<Rightarrow> bool" where
  "is_ws c \<longleftrightarrow> c \<in> set [CHR 0x09, CHR 0x0A, CHR 0x0B, CHR 0x0C, CHR 0x0D, CHR '' '']"

definition digit_table :: "(char \<times> nat) list" where
  "digit_table =
     [(CHR ''0'', 0), (CHR ''1'', 1), (CHR ''2'', 2), (CHR ''3'', 3), (CHR ''4'', 4),
      (CHR ''5'', 5), (CHR ''6'', 6), (CHR ''7'', 7), (CHR ''8'', 8), (CHR ''9'', 9),
      (CHR ''a'', 10), (CHR ''b'', 11), (CHR ''c'', 12), (CHR ''d'', 13), (CHR ''e'', 14),
      (CHR ''f'', 15),
      (CHR ''A'', 10), (CHR ''B'', 11), (CHR ''C'', 12), (CHR ''D'', 13), (CHR ''E'', 14),
      (CHR ''F'', 15)]"

definition digit_val :: "nat \<Rightarrow> char \<Rightarrow> nat option" where
  "digit_val radix c =
     (case map_of digit_table c of
        None \<Rightarrow> None
      | Some d \<Rightarrow> if d < radix then Some d else None)"

definition is_digit :: "nat \<Rightarrow> char \<Rightarrow> bool" where
  "is_digit radix c \<longleftrightarrow> digit_val radix c \<noteq> None"

definition digits_value :: "nat \<Rightarrow> string \<Rightarrow> nat" where
  "digits_value radix ds =
     foldl (\<lambda>acc c. acc * radix + (case digit_val radix c of None \<Rightarrow> 0 | Some d \<Rightarrow> d)) 0 ds"

text \<open>\<open>parseInt(s)\<close> without a radix: skip white space, read a sign, read \<open>0x\<close>/\<open>0X\<close> as
  the prefix of a hexadecimal number, then take the longest prefix of digits. No digit at
  all is \<open>NaN\<close>.\<close>

definition parseInt :: "string \<Rightarrow> int option" where
  "parseInt s =
     (let t = dropWhile is_ws s;
          neg = (take 1 t = ''-'');
          u = (if take 1 t = ''-'' \<or> take 1 t = ''+'' then drop 1 t else t);
          hex = (take 2 u = ''0x'' \<or> take 2 u = ''0X'');
          radix = (if hex then 16 else 10);
          v = (if hex then drop 2 u else u);
          ds = takeWhile (is_digit radix) v
      in if ds = [] then None
         else Some ((if neg then - 1 else 1) * int (digits_value radix ds)))"

text \<open>A number in a template literal: decimal digits, a minus sign, or \<open>NaN\<close>.\<close>

definition digit_char :: "nat \<Rightarrow> char" where
  "digit_char d = ''0123456789'' ! d"

fun digits_of :: "nat \<Rightarrow> string" where
  "digits_of n =
     (if n < 10 then [digit_char n] else digits_of (n div 10) @ [digit_char (n mod 10)])"

declare digits_of.simps [simp del]

definition number_to_string :: "int option \<Rightarrow> string" where
  "number_to_string x =
     (case x of
        None \<Rightarrow> ''NaN''
      | Some i \<Rightarrow> if i < 0 then CHR ''-'' # digits_of (nat (- i)) else digits_of (nat i))"

text \<open>\<open>Math.round\<close>: the nearest integer, halves towards \<open>+\<infinity>\<close>.\<close>

definition Math_round :: "real \<Rightarrow> int" where
  "Math_round x = \<lfloor>x + 1 / 2\<rfloor>"

text \<open>The truth value of a string that may be \<open>null\<close>: \<open>null\<close> and \<open>""\<close> are falsy.\<close>

definition truthy :: "string option \<Rightarrow> bool" where
  "truthy s = (case s of None \<Rightarrow> False | Some x \<Rightarrow> x \<noteq> [])"

datatype js_error = Error string | TypeError string

subsection \<open>Endpoints\<close>

record proxy_entry =
  host :: string
  port :: "int option"
  username :: "string option"
  password :: "string option"
  proxy :: string

definition parseProxy :: "string \<Rightarrow> js_error + proxy_entry" where
  "parseProxy proxyString =
     (let parts = js_split CHR '':'' proxyString in
      if length parts = 2 then
        Inr \<lparr>host = parts ! 0, port = parseInt (parts ! 1),
             username = None, password = None,
             proxy = parts ! 0 @ '':'' @ parts ! 1\<rparr>
      else if length parts = 4 then
        Inr \<lparr>host = parts ! 0, port = parseInt (parts ! 1),
             username = Some (parts ! 2), password = Some (parts ! 3),
             proxy = parts ! 0 @ '':'' @ parts ! 1\<rparr>
      else Inl (Error (''Invalid proxy format: '' @ proxyString)))"

text \<open>The function that \<open>saveProxyList\<close> maps over the list: an endpoint as a string.\<close>

definition proxy_to_string :: "proxy_entry \<Rightarrow> string" where
  "proxy_to_string p =
     (if truthy (username p) \<and> truthy (password p) then
        host p @ '':'' @ number_to_string (port p) @ '':'' @ the (username p)
          @ '':'' @ the (password p)
      else host p @ '':'' @ number_to_string (port p))"

record proxy_config =
  proxy_url :: string
  proxyType :: string
  proxyHost :: string
  proxyPort :: "int option"
  proxyUsername :: "string option"
  proxyPassword :: "string option"

text \<open>\<open>getProxyConfig\<close> for an endpoint that is not \<open>null\<close>; a field that the source's
  object does not have is \<open>None\<close>.\<close>

definition getProxyConfig :: "proxy_entry \<Rightarrow> proxy_config" where
  "getProxyConfig p =
     (if truthy (username p) \<and> truthy (password p) then
        \<lparr>proxy_url = ''http://'' @ the (username p) @ '':'' @ the (password p) @ ''@''
                       @ host p @ '':'' @ number_to_string (port p),
         proxyType = ''http'', proxyHost = host p, proxyPort = port p,
         proxyUsername = username p, proxyPassword = password p\<rparr>
      else
        \<lparr>proxy_url = ''http://'' @ host p @ '':'' @ number_to_string (port p),
         proxyType = ''http'', proxyHost = host p, proxyPort = port p,
         proxyUsername = None, proxyPassword = None\<rparr>)"

definition DEFAULT_PROXY_LIST :: "string list" where
  "DEFAULT_PROXY_LIST =
     [''38.154.227.167:5868:kdzrrkqv:763ww9x8x6x3'',
      ''198.23.239.134:6540:kdzrrkqv:763ww9x8x6x3'',
      ''207.244.217.165:6712:kdzrrkqv:763ww9x8x6x3'',
      ''107.172.163.27:6543:kdzrrkqv:763ww9x8x6x3'',
      ''216.10.27.159:6837:kdzrrkqv:763ww9x8x6x3'',
      ''136.0.207.84:6661:kdzrrkqv:763ww9x8x6x3'',
      ''64.64.118.149:6732:kdzrrkqv:763ww9x8x6x3'',
      ''142.147.128.93:6593:kdzrrkqv:763ww9x8x6x3'',
      ''104.239.105.125:6655:kdzrrkqv:763ww9x8x6x3'',
      ''206.41.172.74:6634:kdzrrkqv:763ww9x8x6x3'',
      ''156.253.166.39:3129::'',
      ''154.213.193.50:3129::'',
      ''156.248.82.131:3129::'',
      ''156.242.34.12:3129::'',
      ''45.201.10.76:3129::'',
      ''156.242.33.139:3129::'',
      ''156.228.176.249:3129::'',
      ''154.213.166.44:3129::'']"

definition MAX_PROXY_RETRIES :: nat where
  "MAX_PROXY_RETRIES = 3"

definition MAX_405_ERRORS :: nat where
  "MAX_405_ERRORS = 5"

subsection \<open>Statistics, storage and the module state\<close>

record proxy_stats =
  totalRequests :: int
  successfulRequests :: int
  totalResponseTime :: int
  lastUsed :: int
  failures :: int
  avgResponseTime :: int
  blockedCount :: int
  lastBlocked :: int

text \<open>
  A \<open>localStorage\<close> item is a string; the module only ever applies \<open>JSON.parse\<close> to it.
  An item is represented by what \<open>JSON.parse\<close> makes of it: the empty string (falsy, so
  not parsed at all), a string that \<open>JSON.parse\<close> rejects, or the parsed value.
  Of a parsed value the module distinguishes strings, arrays and everything else.
\<close>

datatype json = JString string | JArray "json list" | JOther

datatype 'a stored_text = EmptyText | Unparsable | Parses 'a

text \<open>
  The state: the module's variables \<open>proxyList\<close>, \<open>proxyStats\<close>, \<open>proxyEnabled\<close> and
  \<open>http405Count\<close>; the items \<open>ateex_proxy_list\<close>, \<open>ateex_proxy_stats\<close> and
  \<open>ateex_proxy_enabled\<close> of \<open>localStorage\<close> (\<open>None\<close> when \<open>getItem\<close> gives \<open>null\<close>);
  whether reading from or writing to \<open>localStorage\<close> throws; whether the timer that
  \<open>saveProxyStats\<close> sets is pending.
\<close>

record pstate =
  proxyList :: "proxy_entry list"
  proxyStats :: "string \<rightharpoonup> proxy_stats"
  proxyEnabled :: bool
  http405Count :: nat
  ls_proxy_list :: "json stored_text option"
  ls_proxy_stats :: "(string \<rightharpoonup> proxy_stats) stored_text option"
  ls_proxy_enabled :: "string option"
  ls_get_throws :: bool
  ls_set_throws :: bool
  proxyStatsTimeout :: bool

definition isProxyEnabled :: "pstate \<Rightarrow> bool" where
  "isProxyEnabled st =
     (if ls_get_throws st then False
      else (case ls_proxy_enabled st of None \<Rightarrow> False | Some saved \<Rightarrow> saved = ''true''))"

definition setProxyEnabled :: "bool \<Rightarrow> pstate \<Rightarrow> pstate" where
  "setProxyEnabled enabled st =
     (let st1 = st\<lparr>proxyEnabled := enabled\<rparr> in
      if ls_set_throws st1 then st1
      else st1\<lparr>ls_proxy_enabled := Some (if enabled then ''true'' else ''false'')\<rparr>)"

text \<open>\<open>Array.prototype.map\<close> with \<open>parseProxy\<close>: the first element that makes
  \<open>parseProxy\<close> throw ends the whole \<open>map\<close>. An element that is not a string has no
  \<open>split\<close> method.\<close>

fun map_parseProxy :: "json list \<Rightarrow> js_error + proxy_entry list" where
  "map_parseProxy [] = Inr []"
| "map_parseProxy (JString s # rest) =
     (case parseProxy s of
        Inl e \<Rightarrow> Inl e
      | Inr p \<Rightarrow> (case map_parseProxy rest of Inl e \<Rightarrow> Inl e | Inr ps \<Rightarrow> Inr (p # ps)))"
| "map_parseProxy (_ # rest) = Inl (TypeError ''proxyString.split is not a function'')"

text \<open>\<open>DEFAULT_PROXY_LIST.map(parseProxy)\<close>. Every default string has four fields
  (lemma \<open>map_parseProxy_default\<close>), so the second case does not occur.\<close>

definition default_entries :: "proxy_entry list" where
  "default_entries =
     (case map_parseProxy (map JString DEFAULT_PROXY_LIST) of Inr ps \<Rightarrow> ps | Inl e \<Rightarrow> [])"

definition saveProxyList :: "pstate \<Rightarrow> pstate" where
  "saveProxyList st =
     (let proxyStrings = map proxy_to_string (proxyList st) in
      if ls_set_throws st then st
      else st\<lparr>ls_proxy_list := Some (Parses (JArray (map JString proxyStrings)))\<rparr>)"

definition loadProxyList :: "pstate \<Rightarrow> pstate" where
  "loadProxyList st =
     (let fallback = st\<lparr>proxyList := default_entries\<rparr>;
          initialise = saveProxyList (st\<lparr>proxyList := default_entries\<rparr>)
      in
      if ls_get_throws st then fallback
      else
        (case ls_proxy_list st of
           None \<Rightarrow> initialise
         | Some EmptyText \<Rightarrow> initialise
         | Some Unparsable \<Rightarrow> fallback
         | Some (Parses (JArray savedList)) \<Rightarrow>
             if length savedList > 0 then
               (case map_parseProxy savedList of
                  Inr ps \<Rightarrow> st\<lparr>proxyList := ps\<rparr>
                | Inl e \<Rightarrow> fallback)
             else initialise
         | Some (Parses _) \<Rightarrow> initialise))"

definition loadProxyStats :: "pstate \<Rightarrow> pstate" where
  "loadProxyStats st =
     (if ls_get_throws st then st\<lparr>proxyStats := Map.empty\<rparr>
      else
        (case ls_proxy_stats st of
           None \<Rightarrow> st\<lparr>proxyStats := Map.empty\<rparr>
         | Some EmptyText \<Rightarrow> st\<lparr>proxyStats := Map.empty\<rparr>
         | Some Unparsable \<Rightarrow> st\<lparr>proxyStats := Map.empty\<rparr>
         | Some (Parses saved) \<Rightarrow> st\<lparr>proxyStats := saved\<rparr>))"

text \<open>\<open>saveProxyStats\<close> only sets the timer; the write happens two seconds later, when
  the timer fires (\<open>proxyStatsTimeout_fires\<close>).\<close>

definition saveProxyStats :: "pstate \<Rightarrow> pstate" where
  "saveProxyStats st = st\<lparr>proxyStatsTimeout := True\<rparr>"

definition proxyStatsTimeout_fires :: "pstate \<Rightarrow> pstate" where
  "proxyStatsTimeout_fires st =
     (let st1 = st\<lparr>proxyStatsTimeout := False\<rparr> in
      if ls_set_throws st1 then st1
      else st1\<lparr>ls_proxy_stats := Some (Parses (proxyStats st1))\<rparr>)"

definition ensureProxyDataLoaded :: "pstate \<Rightarrow> pstate" where
  "ensureProxyDataLoaded st =
     (if length (proxyList st) = 0 then loadProxyStats (loadProxyList st) else st)"

subsection \<open>The health tracker\<close>

definition new_stats :: proxy_stats where
  "new_stats =
     \<lparr>totalRequests = 0, successfulRequests = 0, totalResponseTime = 0, lastUsed = 0,
      failures = 0, avgResponseTime = 0, blockedCount = 0, lastBlocked = 0\<rparr>"

text \<open>\<open>updateProxyStats\<close>; the first argument is what \<open>Date.now()\<close> returns during the
  call.\<close>

definition update_stats :: "int \<Rightarrow> bool \<Rightarrow> int \<Rightarrow> bool \<Rightarrow> proxy_stats \<Rightarrow> proxy_stats" where
  "update_stats now success responseTime isBlocked stats0 =
     (let stats = stats0\<lparr>totalRequests := totalRequests stats0 + 1, lastUsed := now\<rparr> in
      if success then
        (let stats1 = stats\<lparr>successfulRequests := successfulRequests stats + 1,
                            totalResponseTime := totalResponseTime stats + responseTime\<rparr>
         in stats1\<lparr>avgResponseTime :=
                      Math_round (real_of_int (totalResponseTime stats1)
                                  / real_of_int (successfulRequests stats1)),
                    failures := max 0 (failures stats1 - 1)\<rparr>)
      else
        (let stats1 = stats\<lparr>failures := failures stats + 1\<rparr> in
         if isBlocked then stats1\<lparr>blockedCount := blockedCount stats1 + 1, lastBlocked := now\<rparr>
         else stats1))"

definition updateProxyStats :: "int \<Rightarrow> string \<Rightarrow> bool \<Rightarrow> int \<Rightarrow> bool \<Rightarrow> pstate \<Rightarrow> pstate" where
  "updateProxyStats now proxyKey success responseTime isBlocked st =
     (let stats0 = (case proxyStats st proxyKey of None \<Rightarrow> new_stats | Some s \<Rightarrow> s) in
      saveProxyStats
        (st\<lparr>proxyStats :=
              (proxyStats st)(proxyKey \<mapsto> update_stats now success responseTime isBlocked stats0)\<rparr>))"

text \<open>\<open>markProxyAsBlocked\<close>: one blocked failure and three more failures; the four
  calls read the clock one after the other.\<close>

definition markProxyAsBlocked :: "int \<Rightarrow> int \<Rightarrow> int \<Rightarrow> int \<Rightarrow> string \<Rightarrow> pstate \<Rightarrow> pstate" where
  "markProxyAsBlocked t0 t1 t2 t3 proxyKey st =
     updateProxyStats t3 proxyKey False 30000 False
       (updateProxyStats t2 proxyKey False 30000 False
         (updateProxyStats t1 proxyKey False 30000 False
           (updateProxyStats t0 proxyKey False 30000 True st)))"

subsection \<open>The weighted selector\<close>

definition blockCooldown :: int where
  "blockCooldown = 60 * 60 * 1000"

text \<open>The weight that \<open>selectRandomProxy\<close> gives an endpoint with the statistics
  \<open>stats\<close> (\<open>None\<close>: no entry) at time \<open>now\<close>.\<close>

definition proxy_weight :: "int \<Rightarrow> proxy_stats option \<Rightarrow> real" where
  "proxy_weight now stats =
     (let weight =
        (case stats of
           None \<Rightarrow> 1
         | Some s \<Rightarrow>
             if totalRequests s > 0 then
               (let successRate = real_of_int (successfulRequests s) / real_of_int (totalRequests s);
                    w0 = successRate * 10;
                    w1 = (if failures s > 0 then w0 / real_of_int (failures s * 2) else w0)
                in if blockedCount s > 0 then
                     (let timeSinceBlocked = now - lastBlocked s in
                      if timeSinceBlocked < blockCooldown
                      then w1 / real_of_int (blockedCount s * 10)
                      else w1 / real_of_int (blockedCount s * 2))
                   else w1)
             else 1)
      in max weight (1 / 100))"

text \<open>The draw: subtract the weights in turn until the remainder is not positive.\<close>

fun weighted_pick :: "real \<Rightarrow> (proxy_entry \<times> real) list \<Rightarrow> proxy_entry option" where
  "weighted_pick random [] = None"
| "weighted_pick random ((p, w) # items) =
     (if random - w \<le> 0 then Some p else weighted_pick (random - w) items)"

text \<open>Reading an array at \<open>Math.floor(x)\<close>: \<open>undefined\<close> outside the array.\<close>

definition array_at :: "'a list \<Rightarrow> int \<Rightarrow> 'a option" where
  "array_at xs i = (if 0 \<le> i \<and> nat i < length xs then Some (xs ! nat i) else None)"

text \<open>What one call of \<open>selectRandomProxy\<close> reads from outside: two values of
  \<open>Math.random()\<close> (the second one for the fallback after the draw) and the clock.\<close>

record draws =
  rand1 :: real
  rand2 :: real
  sel_now :: int

definition selectRandomProxy :: "draws \<Rightarrow> string list \<Rightarrow> pstate \<Rightarrow> proxy_entry option \<times> pstate" where
  "selectRandomProxy d excludeProxies st0 =
     (let st = ensureProxyDataLoaded st0 in
      if length (proxyList st) = 0 then (None, st)
      else
        (let availableProxies = filter (\<lambda>p. proxy p \<notin> set excludeProxies) (proxyList st) in
         if length availableProxies = 0 then
           (array_at (proxyList st) \<lfloor>rand1 d * real (length (proxyList st))\<rfloor>, st)
         else
           (let proxiesWithWeights =
                  map (\<lambda>p. (p, proxy_weight (sel_now d) (proxyStats st (proxy p)))) availableProxies;
                totalWeight = foldl (\<lambda>sum item. sum + snd item) 0 proxiesWithWeights;
                random = rand1 d * totalWeight
            in (case weighted_pick random proxiesWithWeights of
                  Some p \<Rightarrow> (Some p, st)
                | None \<Rightarrow>
                    (array_at availableProxies \<lfloor>rand2 d * real (length availableProxies)\<rfloor>, st)))))"

subsection \<open>Pool administration\<close>

definition addProxy :: "string \<Rightarrow> pstate \<Rightarrow> bool \<times> pstate" where
  "addProxy proxyString st =
     (case parseProxy proxyString of
        Inl e \<Rightarrow> (False, st)
      | Inr p \<Rightarrow>
          (case find (\<lambda>q. proxy q = proxy p) (proxyList st) of
             Some existing \<Rightarrow> (False, st)
           | None \<Rightarrow> (True, saveProxyList (st\<lparr>proxyList := proxyList st @ [p]\<rparr>))))"

subsection \<open>The request wrapper\<close>

text \<open>The fields of the \<open>options\<close> object that the wrapper reads (\<open>http_method\<close> is
  its field \<open>method\<close>); \<open>None\<close> is \<open>undefined\<close>. Headers and the caller's timeout are
  passed through and not modelled.\<close>

record options =
  http_method :: "string option"
  url :: string
  data :: "string option"

record response =
  status :: int
  responseText :: string

text \<open>What \<open>GM_xmlhttpRequest\<close> does with one request: it calls \<open>onload\<close>, \<open>onerror\<close>
  or \<open>ontimeout\<close>, or it throws at once.\<close>

datatype xhr_outcome = Load response | NetError string | Timeout | Throws string

text \<open>
  One request as the network answers it: the outcome, the time \<open>Date.now() -
  requestStart\<close> measured in the callback (\<open>elapsed\<close>), and the clock that
  \<open>updateProxyStats\<close> reads then.

  Calls overlap: every answer is handled in a callback of its own, and between the
  callbacks of one call run those of the other calls in flight and whatever else the page
  does, all on the same state. An event therefore also says what the others do to the
  state: \<open>meanwhile\<close> between the moment the request is sent and the moment its callback
  starts, \<open>during_wait\<close> in the second between the end of that callback and the next
  attempt, which \<open>setTimeout\<close> starts. For a call that runs on its own both are the
  identity.
\<close>

record event =
  outcome :: xhr_outcome
  elapsed :: int
  clock :: int
  meanwhile :: "pstate \<Rightarrow> pstate"
  during_wait :: "pstate \<Rightarrow> pstate"

text \<open>The state in which the callback of a request starts, when the request was sent in
  the state \<open>st\<close>. An exception of \<open>GM_xmlhttpRequest\<close> is there at once.\<close>

definition state_at_answer :: "event \<Rightarrow> pstate \<Rightarrow> pstate" where
  "state_at_answer ev st = (case outcome ev of Throws x \<Rightarrow> st | _ \<Rightarrow> meanwhile ev st)"

text \<open>The value a promise is rejected with: the error object of the transport, an
  \<open>Error\<close> made by the wrapper, or what \<open>GM_xmlhttpRequest\<close> threw.\<close>

datatype rejection = TransportError string | NewError string | Thrown string

text \<open>The promise: resolved, rejected, or never settled.\<close>

datatype result = Resolved response | Rejected rejection | Pending

text \<open>The places where the wrapper calls \<open>GM_xmlhttpRequest\<close>; for a request through a
  proxy with the number of the attempt and the value of \<open>selectedProxy\<close>. The request sent
  there (with the proxy URL, if any).\<close>

datatype site =
    DirectDisabled | DirectExhausted | DirectNoProxy | DirectAutoDisabled
  | ProxyAttempt nat proxy_entry | GetReissue nat proxy_entry

record request =
  r_method :: "string option"
  r_url :: string
  r_data :: "string option"
  r_proxy :: "string option"

definition direct_request :: "options \<Rightarrow> request" where
  "direct_request opts =
     \<lparr>r_method = http_method opts, r_url = url opts, r_data = data opts, r_proxy = None\<rparr>"

definition proxy_request :: "options \<Rightarrow> proxy_entry \<Rightarrow> request" where
  "proxy_request opts p =
     \<lparr>r_method = http_method opts, r_url = url opts, r_data = data opts,
      r_proxy = Some (proxy_url (getProxyConfig p))\<rparr>"

definition get_request :: "options \<Rightarrow> proxy_entry \<Rightarrow> request" where
  "get_request opts p =
     \<lparr>r_method = Some ''GET'',
      r_url = (if truthy (data opts) then url opts @ ''?'' @ the (data opts) else url opts),
      r_data = None,
      r_proxy = Some (proxy_url (getProxyConfig p))\<rparr>"

text \<open>One request of a call in the trace of the call: where and what was sent, the state
  in which its callback started and the state in which that callback ended. For a request
  that is never answered both are the state in which it was sent.\<close>

record dispatch =
  d_site :: site
  d_request :: request
  d_before :: pstate
  d_after :: pstate

type_synonym run = "result \<times> pstate \<times> dispatch list"

definition sent :: "dispatch \<Rightarrow> run \<Rightarrow> run" where
  "sent d r = (case r of (res, st, tr) \<Rightarrow> (res, st, d # tr))"

text \<open>The direct request of a disabled proxy layer. It is made inside the executor of
  the promise, so an exception rejects the promise.\<close>

definition direct_disabled :: "event list \<Rightarrow> result" where
  "direct_disabled evs =
     (case evs of
        [] \<Rightarrow> Pending
      | ev # _ \<Rightarrow>
          (case outcome ev of
             Load r \<Rightarrow> Resolved r
           | NetError e \<Rightarrow> Rejected (TransportError e)
           | Timeout \<Rightarrow> Rejected (NewError ''Request timeout'')
           | Throws x \<Rightarrow> Rejected (Thrown x)))"

text \<open>The direct request after \<open>MAX_PROXY_RETRIES\<close> attempts. It is made from a timer,
  where an exception is lost and the promise stays pending.\<close>

definition direct_exhausted :: "event list \<Rightarrow> result" where
  "direct_exhausted evs =
     (case evs of
        [] \<Rightarrow> Pending
      | ev # _ \<Rightarrow>
          (case outcome ev of
             Load r \<Rightarrow> Resolved r
           | NetError e \<Rightarrow> Rejected (NewError ''All proxy attempts and direct request failed'')
           | Timeout \<Rightarrow> Rejected (NewError ''All proxy attempts and direct request failed'')
           | Throws x \<Rightarrow> Pending))"

text \<open>The direct request when no endpoint was selected: in the first attempt inside the
  executor of the promise, later from a timer.\<close>

definition direct_no_proxy :: "nat \<Rightarrow> event list \<Rightarrow> result" where
  "direct_no_proxy attempt evs =
     (case evs of
        [] \<Rightarrow> Pending
      | ev # _ \<Rightarrow>
          (case outcome ev of
             Load r \<Rightarrow> Resolved r
           | NetError e \<Rightarrow> Rejected (TransportError e)
           | Timeout \<Rightarrow> Rejected (NewError ''Direct request timeout'')
           | Throws x \<Rightarrow> if attempt = 1 then Rejected (Thrown x) else Pending))"

text \<open>The direct request after the proxy layer disabled itself, made from \<open>onload\<close>.\<close>

definition direct_auto_disabled :: "event list \<Rightarrow> result" where
  "direct_auto_disabled evs =
     (case evs of
        [] \<Rightarrow> Pending
      | ev # _ \<Rightarrow>
          (case outcome ev of
             Load r \<Rightarrow> Resolved r
           | NetError e \<Rightarrow> Rejected (NewError ''Proxy auto-disabled and direct request failed'')
           | Timeout \<Rightarrow> Rejected (NewError ''Proxy auto-disabled and direct request timeout'')
           | Throws x \<Rightarrow> Pending))"

text \<open>A direct request sent from the place \<open>s\<close> in the state \<open>st\<close>; \<open>res\<close> is what its
  callbacks make of the promise. These callbacks do not touch the state, and the request
  is the last one of the call.\<close>

definition direct_dispatch :: "site \<Rightarrow> options \<Rightarrow> result \<Rightarrow> pstate \<Rightarrow> event list \<Rightarrow> run" where
  "direct_dispatch s opts res st evs =
     (let st1 = (case evs of [] \<Rightarrow> st | ev # _ \<Rightarrow> state_at_answer ev st) in
      (res, st1,
       [\<lparr>d_site = s, d_request = direct_request opts, d_before = st1, d_after = st1\<rparr>]))"

text \<open>
  The callbacks of a request through a proxy change the state and then do one of five
  things: resolve the promise; send the direct request after the layer disabled itself;
  send the \<open>GET\<close> request; put the endpoint on the list of excluded ones and start the
  timer for the next attempt; or end in an exception that nothing catches.
\<close>

datatype action = Resolve response | DirectAfterDisable | ReissueGet | RetryLater | Uncaught

text \<open>The three callbacks of \<open>requestOptions\<close>. Their free variables \<open>options\<close> and
  \<open>selectedProxy\<close> are arguments, and so are \<open>responseTime\<close> and the clock \<open>t\<close> that
  \<open>updateProxyStats\<close> reads.\<close>

definition onload ::
    "options \<Rightarrow> proxy_entry \<Rightarrow> int \<Rightarrow> int \<Rightarrow> response \<Rightarrow> pstate \<Rightarrow> action \<times> pstate" where
  "onload opts selectedProxy responseTime t r st =
     (if status r = 200 then
        (Resolve r,
         updateProxyStats t (proxy selectedProxy) True responseTime False
           (st\<lparr>http405Count := 0\<rparr>))
      else if status r = 405 then
        (let st1 = updateProxyStats t (proxy selectedProxy) False responseTime False
                     (st\<lparr>http405Count := http405Count st + 1\<rparr>) in
         if http405Count st1 \<ge> MAX_405_ERRORS then (DirectAfterDisable, setProxyEnabled False st1)
         else if http_method opts = Some ''POST'' then (ReissueGet, st1)
         else (RetryLater, st1))
      else
        (RetryLater, updateProxyStats t (proxy selectedProxy) False responseTime False st))"

definition onerror :: "proxy_entry \<Rightarrow> int \<Rightarrow> int \<Rightarrow> string \<Rightarrow> pstate \<Rightarrow> action \<times> pstate" where
  "onerror selectedProxy responseTime t e st =
     (RetryLater, updateProxyStats t (proxy selectedProxy) False responseTime False st)"

definition ontimeout :: "proxy_entry \<Rightarrow> int \<Rightarrow> int \<Rightarrow> pstate \<Rightarrow> action \<times> pstate" where
  "ontimeout selectedProxy responseTime t st =
     (RetryLater, updateProxyStats t (proxy selectedProxy) False responseTime False st)"

text \<open>What happens when a request through a proxy is answered: one of the callbacks
  runs or, if \<open>GM_xmlhttpRequest\<close> threw, the \<open>catch\<close> block around the request of the
  attempt. The \<open>GET\<close> request that \<open>onload\<close> sends is not inside \<open>try\<close>.\<close>

definition proxy_callback ::
    "options \<Rightarrow> proxy_entry \<Rightarrow> bool \<Rightarrow> event \<Rightarrow> pstate \<Rightarrow> action \<times> pstate" where
  "proxy_callback opts selectedProxy reissue ev st =
     (case outcome ev of
        Load r \<Rightarrow> onload opts selectedProxy (elapsed ev) (clock ev) r st
      | NetError e \<Rightarrow> onerror selectedProxy (elapsed ev) (clock ev) e st
      | Timeout \<Rightarrow> ontimeout selectedProxy (elapsed ev) (clock ev) st
      | Throws x \<Rightarrow>
          if reissue then (Uncaught, st)
          else (RetryLater,
                updateProxyStats (clock ev) (proxy selectedProxy) False (elapsed ev) False st))"

text \<open>
  \<open>attemptRequest\<close> is the function of that name inside \<open>makeProxyRequest\<close>; its
  variables \<open>excludedProxies\<close> and \<open>attempt\<close> are arguments. \<open>env\<close> gives, for the
  attempt with a given number, what \<open>selectRandomProxy\<close> reads from outside. The events
  are the answers to the requests of this call in the order in which they are sent. When
  the events run out, the promise is pending.

  \<open>proxy_dispatch\<close> is the call \<open>GM_xmlhttpRequest(requestOptions)\<close> together with what
  follows the answer. The flag says whether this is the request of the attempt or the
  \<open>GET\<close> request that \<open>onload\<close> sends after a 405 answer to a \<open>POST\<close>: that one has the
  same callbacks.
\<close>

fun attemptRequest ::
    "options \<Rightarrow> (nat \<Rightarrow> draws) \<Rightarrow> pstate \<Rightarrow> string list \<Rightarrow> nat \<Rightarrow> event list \<Rightarrow> run"
  and proxy_dispatch ::
    "options \<Rightarrow> (nat \<Rightarrow> draws) \<Rightarrow> proxy_entry \<Rightarrow> bool \<Rightarrow> pstate \<Rightarrow> string list \<Rightarrow> nat
       \<Rightarrow> event list \<Rightarrow> run"
where
  "attemptRequest opts env st excludedProxies attempt0 evs =
     (let attempt = attempt0 + 1 in
      if attempt > MAX_PROXY_RETRIES then
        direct_dispatch DirectExhausted opts (direct_exhausted evs) st evs
      else
        (case selectRandomProxy (env attempt) excludedProxies st of
           (None, st1) \<Rightarrow>
             direct_dispatch DirectNoProxy opts (direct_no_proxy attempt evs) st1 evs
         | (Some selectedProxy, st1) \<Rightarrow>
             proxy_dispatch opts env selectedProxy False st1 excludedProxies attempt evs))"
| "proxy_dispatch opts env selectedProxy reissue st excludedProxies attempt [] =
     (Pending, st,
      [\<lparr>d_site = (if reissue then GetReissue attempt selectedProxy
                  else ProxyAttempt attempt selectedProxy),
        d_request = (if reissue then get_request opts selectedProxy
                     else proxy_request opts selectedProxy),
        d_before = st, d_after = st\<rparr>])"
| "proxy_dispatch opts env selectedProxy reissue st excludedProxies attempt (ev # evs) =
     (let st0 = state_at_answer ev st;
          todo = fst (proxy_callback opts selectedProxy reissue ev st0);
          st1 = snd (proxy_callback opts selectedProxy reissue ev st0);
          this = \<lparr>d_site = (if reissue then GetReissue attempt selectedProxy
                            else ProxyAttempt attempt selectedProxy),
                  d_request = (if reissue then get_request opts selectedProxy
                               else proxy_request opts selectedProxy),
                  d_before = st0, d_after = st1\<rparr>
      in
      case todo of
        Resolve r \<Rightarrow> (Resolved r, st1, [this])
      | DirectAfterDisable \<Rightarrow>
          sent this (direct_dispatch DirectAutoDisabled opts (direct_auto_disabled evs) st1 evs)
      | ReissueGet \<Rightarrow>
          sent this (proxy_dispatch opts env selectedProxy True st1 excludedProxies attempt evs)
      | RetryLater \<Rightarrow>
          sent this
            (attemptRequest opts env (during_wait ev st1) (excludedProxies @ [proxy selectedProxy])
               attempt evs)
      | Uncaught \<Rightarrow> (Pending, st1, [this]))"

definition makeProxyRequest :: "options \<Rightarrow> (nat \<Rightarrow> draws) \<Rightarrow> pstate \<Rightarrow> event list \<Rightarrow> run" where
  "makeProxyRequest opts env st evs =
     (if \<not> isProxyEnabled st then
        direct_dispatch DirectDisabled opts (direct_disabled evs) st evs
      else attemptRequest opts env st [] 0 evs)"

text \<open>The equations of the two functions are used by name.\<close>

declare attemptRequest.simps [simp del] proxy_dispatch.simps [simp del]

text \<open>
  The steps by which the request wrappers of all calls together, and the rest of the
  module, change the state while requests are in flight: a callback of a request through
  a proxy (of whatever call), a selection, an update of the statistics from elsewhere (the
  probes, \<open>markProxyAsBlocked\<close>), and the timer of \<open>saveProxyStats\<close>. The callbacks of
  direct requests change nothing. \<open>setProxyEnabled\<close> is called from \<open>onload\<close> only; the
  other places that call it are outside the wrapper and are no steps here.
\<close>

datatype module_step =
    Answered options proxy_entry bool event
  | Selected draws "string list"
  | Recorded int string bool int bool
  | StatsSaved

fun module_steps :: "module_step list \<Rightarrow> pstate \<Rightarrow> pstate" where
  "module_steps [] st = st"
| "module_steps (Answered opts p reissue ev # steps) st =
     module_steps steps (snd (proxy_callback opts p reissue ev st))"
| "module_steps (Selected d excludedProxies # steps) st =
     module_steps steps (snd (selectRandomProxy d excludedProxies st))"
| "module_steps (Recorded t proxyKey success responseTime isBlocked # steps) st =
     module_steps steps (updateProxyStats t proxyKey success responseTime isBlocked st)"
| "module_steps (StatsSaved # steps) st = module_steps steps (proxyStatsTimeout_fires st)"

subsection \<open>Notions used in the properties\<close>

text \<open>The statistics that \<open>updateProxyStats\<close> works on: the entry of the key, or the
  entry it creates when there is none.\<close>

definition stats_or_new :: "pstate \<Rightarrow> string \<Rightarrow> proxy_stats" where
  "stats_or_new st k = (case proxyStats st k of None \<Rightarrow> new_stats | Some s \<Rightarrow> s)"

text \<open>The stored average is the rounded mean of the response times of the successful
  requests, and 0 as long as there is none.\<close>

definition average_invariant :: "proxy_stats \<Rightarrow> bool" where
  "average_invariant s \<longleftrightarrow>
     0 \<le> successfulRequests s \<and>
     (if successfulRequests s > 0
      then avgResponseTime s =
             Math_round (real_of_int (totalResponseTime s) / real_of_int (successfulRequests s))
      else avgResponseTime s = 0)"

text \<open>A sequence of calls of \<open>updateProxyStats\<close>, each with the clock it reads and its
  four arguments.\<close>

fun record_outcomes :: "(int \<times> string \<times> bool \<times> int \<times> bool) list \<Rightarrow> pstate \<Rightarrow> pstate" where
  "record_outcomes [] st = st"
| "record_outcomes ((t, proxyKey, success, rt, isBlocked) # calls) st =
     record_outcomes calls (updateProxyStats t proxyKey success rt isBlocked st)"

text \<open>Counters as \<open>updateProxyStats\<close> keeps them (lemma \<open>counters_wf_calls\<close>): nothing
  negative, no more successes and no more blocks than requests.\<close>

definition counters_wf :: "proxy_stats \<Rightarrow> bool" where
  "counters_wf s \<longleftrightarrow>
     0 \<le> successfulRequests s \<and> successfulRequests s \<le> totalRequests s \<and> 0 \<le> failures s
     \<and> 0 \<le> blockedCount s \<and> blockedCount s \<le> totalRequests s"

text \<open>A port field that \<open>parseInt\<close> and the formatting of the number give back
  unchanged: decimal digits only, no leading zero, and short enough for the number to be
  exact.\<close>

definition canonical_port :: "string \<Rightarrow> bool" where
  "canonical_port ds \<longleftrightarrow>
     ds \<noteq> [] \<and> list_all (is_digit 10) ds \<and> (length ds > 1 \<longrightarrow> hd ds \<noteq> CHR ''0'')
     \<and> length ds \<le> 15"

text \<open>The kinds of places where a request is sent: the request of an attempt, the \<open>GET\<close>
  request after a 405 answer, both of them through a proxy, and the direct requests.\<close>

definition is_attempt :: "site \<Rightarrow> bool" where
  "is_attempt s = (case s of ProxyAttempt n p \<Rightarrow> True | _ \<Rightarrow> False)"

definition is_reissue :: "site \<Rightarrow> bool" where
  "is_reissue s = (case s of GetReissue n p \<Rightarrow> True | _ \<Rightarrow> False)"

definition is_proxied :: "site \<Rightarrow> bool" where
  "is_proxied s \<longleftrightarrow> is_attempt s \<or> is_reissue s"

definition is_direct_site :: "site \<Rightarrow> bool" where
  "is_direct_site s = (case s of ProxyAttempt n p \<Rightarrow> False | GetReissue n p \<Rightarrow> False | _ \<Rightarrow> True)"

text \<open>The place of the first request of an attempt with the number \<open>n\<close>.\<close>

definition starts_attempt :: "nat \<Rightarrow> site \<Rightarrow> bool" where
  "starts_attempt n s \<longleftrightarrow>
     s = DirectExhausted \<or> s = DirectNoProxy \<or> (\<exists>q. s = ProxyAttempt n q)"

text \<open>The HTTP statuses of the answers to requests through a proxy among the steps of
  the module.\<close>

fun answer_statuses :: "module_step list \<Rightarrow> int list" where
  "answer_statuses [] = []"
| "answer_statuses (Answered opts p reissue ev # steps) =
     (case outcome ev of
        Load r \<Rightarrow> status r # answer_statuses steps
      | _ \<Rightarrow> answer_statuses steps)"
| "answer_statuses (_ # steps) = answer_statuses steps"

text \<open>The status of one answer, if it has one.\<close>

definition answer_status :: "event \<Rightarrow> int list" where
  "answer_status ev = (case outcome ev of Load r \<Rightarrow> [status r] | _ \<Rightarrow> [])"

text \<open>The HTTP statuses of the answers that came through a proxy in a run, in the order
  of the requests: the \<open>i\<close>-th request of the trace is answered by the \<open>i\<close>-th event.\<close>

fun proxied_statuses :: "dispatch list \<Rightarrow> event list \<Rightarrow> int list" where
  "proxied_statuses (d # tr) (ev # evs) =
     (if is_proxied (d_site d) then answer_status ev else []) @ proxied_statuses tr evs"
| "proxied_statuses tr evs = []"

text \<open>
  The circuit breaker as a count over these statuses. \<open>streak c S\<close> is the number of 405
  answers since the last 200 answer, starting at \<open>c\<close>. \<open>tripped c S\<close> says that some 405
  answer found the count at \<open>MAX_405_ERRORS - 1\<close> or above.
\<close>

fun streak :: "nat \<Rightarrow> int list \<Rightarrow> nat" where
  "streak c [] = c"
| "streak c (s # S) = streak (if s = 200 then 0 else if s = 405 then c + 1 else c) S"

fun tripped :: "nat \<Rightarrow> int list \<Rightarrow> bool" where
  "tripped c [] = False"
| "tripped c (s # S) =
     ((s = 405 \<and> MAX_405_ERRORS \<le> c + 1)
      \<or> tripped (if s = 200 then 0 else if s = 405 then c + 1 else c) S)"

text \<open>The other calls do not lower the counter while the call with these events runs:
  none of their requests through a proxy is answered with 200.\<close>

definition counter_kept :: "event list \<Rightarrow> bool" where
  "counter_kept evs \<longleftrightarrow>
     (\<forall>ev \<in> set evs. \<forall>s. http405Count s \<le> http405Count (meanwhile ev s)
                         \<and> http405Count s \<le> http405Count (during_wait ev s))"

text \<open>A call on its own: nothing else touches the state while it runs.\<close>

definition undisturbed :: "event list \<Rightarrow> bool" where
  "undisturbed evs \<longleftrightarrow> (\<forall>ev \<in> set evs. meanwhile ev = id \<and> during_wait ev = id)"

text \<open>The final state of a run comes from the state \<open>st\<close> by steps of the module with the
  statuses of the run.\<close>

definition alone_inv :: "pstate \<Rightarrow> event list \<Rightarrow> run \<Rightarrow> bool" where
  "alone_inv st evs r \<longleftrightarrow>
     (\<exists>steps. fst (snd r) = module_steps steps st
              \<and> answer_statuses steps = proxied_statuses (snd (snd r)) evs)"

text \<open>
  What follows in a run the callback of the request of attempt \<open>a\<close> through \<open>p\<close>, when
  the callback ended in the state \<open>st1\<close> with \<open>todo\<close>: \<open>res\<close> and \<open>st'\<close> are the result and
  the final state of the run and \<open>rest\<close> the requests after this one.
\<close>

definition continues ::
    "nat \<Rightarrow> proxy_entry \<Rightarrow> action \<Rightarrow> pstate \<Rightarrow> result \<Rightarrow> pstate \<Rightarrow> dispatch list \<Rightarrow> bool" where
  "continues a p todo st1 res st' rest =
     (case todo of
        Resolve r \<Rightarrow> res = Resolved r \<and> st' = st1 \<and> rest = []
      | Uncaught \<Rightarrow> res = Pending \<and> st' = st1 \<and> rest = []
      | DirectAfterDisable \<Rightarrow> length rest = 1 \<and> d_site (hd rest) = DirectAutoDisabled
      | ReissueGet \<Rightarrow> rest \<noteq> [] \<and> d_site (hd rest) = GetReissue a p
      | RetryLater \<Rightarrow> rest \<noteq> [] \<and> starts_attempt (Suc a) (d_site (hd rest)))"

text \<open>Every answered request through a proxy of a run is handled by \<open>proxy_callback\<close>,
  and the run continues as the callback says; a direct request is the last one and its
  callback leaves the state as it is.\<close>

definition step_ok :: "options \<Rightarrow> event \<Rightarrow> dispatch \<Rightarrow> result \<Rightarrow> pstate \<Rightarrow> dispatch list \<Rightarrow> bool" where
  "step_ok opts ev d res st' rest =
     (case d_site d of
        ProxyAttempt a p \<Rightarrow>
          d_request d = proxy_request opts p
          \<and> d_after d = snd (proxy_callback opts p False ev (d_before d))
          \<and> continues a p (fst (proxy_callback opts p False ev (d_before d))) (d_after d)
               res st' rest
      | GetReissue a p \<Rightarrow>
          d_request d = get_request opts p
          \<and> d_after d = snd (proxy_callback opts p True ev (d_before d))
          \<and> continues a p (fst (proxy_callback opts p True ev (d_before d))) (d_after d)
               res st' rest
      | _ \<Rightarrow> d_request d = direct_request opts \<and> d_after d = d_before d \<and> st' = d_after d
             \<and> rest = [])"

definition step_inv :: "options \<Rightarrow> event list \<Rightarrow> run \<Rightarrow> bool" where
  "step_inv opts evs r \<longleftrightarrow>
     (\<forall>i. i < length (snd (snd r)) \<and> i < length evs \<longrightarrow>
        step_ok opts (evs ! i) (snd (snd r) ! i) (fst r) (fst (snd r))
          (drop (Suc i) (snd (snd r))))"

text \<open>A run that ends with the direct request of the exhausted attempts has made \<open>n\<close>
  requests of attempts before, and has the result that the callbacks of the direct request
  give; that request is made with the options of the caller.\<close>

definition exhausted_inv :: "options \<Rightarrow> nat \<Rightarrow> event list \<Rightarrow> run \<Rightarrow> bool" where
  "exhausted_inv opts n evs r \<longleftrightarrow>
     (d_site (last (snd (snd r))) = DirectExhausted
        \<longrightarrow> fst r = direct_exhausted (drop (length (snd (snd r)) - 1) evs)
            \<and> length (filter (\<lambda>d. is_attempt (d_site d)) (snd (snd r))) = n
            \<and> d_request (last (snd (snd r))) = direct_request opts)"

text \<open>Bounds on the trace of a run: at most \<open>n\<close> requests of attempts, at most one direct
  request and only as the last one, and no \<open>GET\<close> reissue unless the method is \<open>POST\<close>
  (or the run starts as a reissue).\<close>

definition bound_inv :: "options \<Rightarrow> nat \<Rightarrow> bool \<Rightarrow> run \<Rightarrow> bool" where
  "bound_inv opts n re r \<longleftrightarrow>
     length (filter (\<lambda>d. is_attempt (d_site d)) (snd (snd r))) \<le> n
     \<and> length (filter (\<lambda>d. is_direct_site (d_site d)) (snd (snd r))) \<le> 1
     \<and> filter (\<lambda>d. is_direct_site (d_site d)) (butlast (snd (snd r))) = []
     \<and> (http_method opts \<noteq> Some ''POST'' \<and> \<not> re
          \<longrightarrow> filter (\<lambda>d. is_reissue (d_site d)) (snd (snd r)) = [])"

text \<open>A \<open>GET\<close> reissue comes directly after a request through the same endpoint in the
  same attempt, whose answer had the status 405 and left the counter below the threshold,
  and only if the method is \<open>POST\<close>.\<close>

definition reissue_ok :: "options \<Rightarrow> event \<Rightarrow> dispatch \<Rightarrow> dispatch \<Rightarrow> bool" where
  "reissue_ok opts ev d d' \<longleftrightarrow>
     (\<forall>a p. d_site d' = GetReissue a p \<longrightarrow>
        (d_site d = ProxyAttempt a p \<or> d_site d = GetReissue a p)
        \<and> (\<exists>r. outcome ev = Load r \<and> status r = 405)
        \<and> http405Count (d_after d) = http405Count (d_before d) + 1
        \<and> http405Count (d_after d) < MAX_405_ERRORS
        \<and> http_method opts = Some ''POST''
        \<and> d_request d' = get_request opts p)"

definition reissue_inv :: "options \<Rightarrow> event list \<Rightarrow> dispatch list \<Rightarrow> bool" where
  "reissue_inv opts evs tr \<longleftrightarrow>
     (\<forall>i. Suc i < length tr \<longrightarrow> i < length evs \<and> reissue_ok opts (evs ! i) (tr ! i) (tr ! Suc i))"

text \<open>With the counter at \<open>c\<close> at the start and not lowered by others, a run has at most
  \<open>MAX_405_ERRORS - 1 - c\<close> reissues (one more if it starts as a reissue).\<close>

definition reissue_bound :: "nat \<Rightarrow> bool \<Rightarrow> run \<Rightarrow> bool" where
  "reissue_bound c re r \<longleftrightarrow>
     length (filter (\<lambda>d. is_reissue (d_site d)) (snd (snd r)))
       \<le> (if re then 1 else 0) + (MAX_405_ERRORS - 1 - c)"

subsection \<open>Concrete inputs\<close>

text \<open>A state with one endpoint, stored as it is, and no statistics; the proxy layer is
  enabled.\<close>

definition example_proxy :: proxy_entry where
  "example_proxy =
     \<lparr>host = ''10.0.0.1'', port = Some 8080, username = None, password = None,
      proxy = ''10.0.0.1:8080''\<rparr>"

definition example_state :: pstate where
  "example_state =
     \<lparr>proxyList = [example_proxy], proxyStats = Map.empty, proxyEnabled = True,
      http405Count = 0,
      ls_proxy_list = Some (Parses (JArray [JString ''10.0.0.1:8080''])),
      ls_proxy_stats = None, ls_proxy_enabled = Some ''true'',
      ls_get_throws = False, ls_set_throws = False, proxyStatsTimeout = False\<rparr>"

text \<open>The example state after one failed request through its endpoint.\<close>

definition failed_once :: pstate where
  "failed_once = updateProxyStats 5 ''10.0.0.1:8080'' False 900 False example_state"

text \<open>The example state after its endpoint, never used before, was marked as blocked.\<close>

definition blocked_fresh :: pstate where
  "blocked_fresh = markProxyAsBlocked 10 10 10 10 ''10.0.0.1:8080'' example_state"

text \<open>Statistics of an endpoint that was blocked once and has worked half of the time.\<close>

definition recovering_stats :: proxy_stats where
  "recovering_stats =
     \<lparr>totalRequests = 10, successfulRequests = 5, totalResponseTime = 2500, lastUsed = 10,
      failures = 1, avgResponseTime = 500, blockedCount = 1, lastBlocked = 10\<rparr>"

text \<open>A state whose stored list has a well-formed and a malformed entry.\<close>

definition stored_with_bad_entry :: pstate where
  "stored_with_bad_entry =
     example_state\<lparr>proxyList := [],
       ls_proxy_list := Some (Parses (JArray [JString ''10.0.0.1:8080'', JString ''10.0.0.2'']))\<rparr>"

text \<open>Requests, the outside of \<open>selectRandomProxy\<close> and answers of the network to a call
  that runs on its own.\<close>

definition get_opts :: options where
  "get_opts = \<lparr>http_method = Some ''GET'', url = ''https://example.org/ping'', data = Some ''''\<rparr>"

definition post_opts :: options where
  "post_opts =
     \<lparr>http_method = Some ''POST'', url = ''https://example.org/solve'', data = Some ''input=abc''\<rparr>"

definition env0 :: "nat \<Rightarrow> draws" where
  "env0 attempt = \<lparr>rand1 = 1 / 2, rand2 = 1 / 2, sel_now = 1000\<rparr>"

definition answer :: "int \<Rightarrow> event" where
  "answer s =
     \<lparr>outcome = Load \<lparr>status = s, responseText = ''''\<rparr>, elapsed = 100, clock = 1000,
      meanwhile = id, during_wait = id\<rparr>"

definition net_error :: "string \<Rightarrow> event" where
  "net_error msg =
     \<lparr>outcome = NetError msg, elapsed = 100, clock = 1000, meanwhile = id, during_wait = id\<rparr>"

definition timed_out :: event where
  "timed_out =
     \<lparr>outcome = Timeout, elapsed = 15000, clock = 1000, meanwhile = id, during_wait = id\<rparr>"

text \<open>The example state after a call whose three attempts were answered with 405 and whose
  direct request succeeded.\<close>

definition after_call1 :: pstate where
  "after_call1 =
     fst (snd (makeProxyRequest get_opts env0 example_state
                 [answer 405, answer 405, answer 405, answer 200]))"

text \<open>
  Two calls that overlap. The first attempt of the outer call is answered with 405; in
  the second before its next attempt the inner call is made and comes to its end, with
  three 405 answers and a successful direct request; then the second attempt of the outer
  call is answered with 405.
\<close>

definition inner_call :: "pstate \<Rightarrow> pstate" where
  "inner_call st =
     fst (snd (makeProxyRequest get_opts env0 st
                 [answer 405, answer 405, answer 405, answer 200]))"

definition outer_events :: "event list" where
  "outer_events = [(answer 405)\<lparr>during_wait := inner_call\<rparr>, answer 405, answer 200]"

text \<open>Steps of the module while two calls are in flight: six answers to requests through
  the proxy, five of them with status 405 and one with status 204, and a selection.\<close>

definition mixed_steps :: "module_step list" where
  "mixed_steps =
     [Answered get_opts example_proxy False (answer 405),
      Answered post_opts example_proxy False (answer 405),
      Selected (env0 2) [''10.0.0.1:8080''],
      Answered post_opts example_proxy True (answer 405),
      Answered get_opts example_proxy False (answer 204),
      Answered post_opts example_proxy True (answer 405),
      Answered get_opts example_proxy False (answer 405)]"

section \<open>Properties\<close>

subsection \<open>Splitting strings\<close>

lemma js_split_not_Nil: "js_split c s \<noteq> []"
  by (induction s) (auto split: list.splits)

lemma length_js_split: "length (js_split c s) = Suc (length (filter (\<lambda>x. x = c) s))"
  by (induction s) (auto split: list.splits simp: js_split_not_Nil)

lemma js_split_no_sep: "p \<in> set (js_split c s) \<Longrightarrow> c \<notin> set p"
  by (induction s arbitrary: p) (auto split: list.splits if_splits)

lemma js_split_plain: "c \<notin> set a \<Longrightarrow> js_split c a = [a]"
  by (induction a) auto

lemma js_split_append: "c \<notin> set a \<Longrightarrow> js_split c (a @ c # b) = a # js_split c b"
  by (induction a) auto

lemma js_join_split: "js_join c (js_split c s) = s"
proof (induction s)
  case Nil
  show ?case by simp
next
  case (Cons x s)
  obtain p ps where ps: "js_split c s = p # ps"
    by (cases "js_split c s") (auto simp: js_split_not_Nil)
  show ?case
  proof (cases "x = c")
    case True
    with Cons ps show ?thesis by simp
  next
    case False
    with Cons ps show ?thesis by (cases ps) auto
  qed
qed

lemma js_split_two: "js_split c s = [a, b] \<Longrightarrow> s = a @ c # b"
  using js_join_split [of c s] by simp

lemma js_split_four: "js_split c s = [a, b, u, w] \<Longrightarrow> s = a @ c # b @ c # u @ c # w"
  using js_join_split [of c s] by simp

lemma split_host_port:
  "CHR '':'' \<notin> set h \<Longrightarrow> CHR '':'' \<notin> set p \<Longrightarrow> js_split CHR '':'' (h @ '':'' @ p) = [h, p]"
  by (simp add: js_split_append js_split_plain)

lemma split_four_fields:
  "CHR '':'' \<notin> set h \<Longrightarrow> CHR '':'' \<notin> set p \<Longrightarrow> CHR '':'' \<notin> set u \<Longrightarrow> CHR '':'' \<notin> set w
     \<Longrightarrow> js_split CHR '':'' (h @ '':'' @ p @ '':'' @ u @ '':'' @ w) = [h, p, u, w]"
  by (simp add: js_split_append js_split_plain)

lemma list_two: "length xs = 2 \<Longrightarrow> xs = [xs ! 0, xs ! 1]"
  by (cases xs; cases "tl xs"; auto)

lemma list_four: "length xs = 4 \<Longrightarrow> xs = [xs ! 0, xs ! 1, xs ! 2, xs ! 3]"
proof -
  assume "length xs = 4"
  then obtain a b c d where "xs = [a, b, c, d]"
    by (cases xs; cases "tl xs"; cases "tl (tl xs)"; cases "tl (tl (tl xs))"; auto)
  then show ?thesis by simp
qed

subsection \<open>Adding an endpoint\<close>

text \<open>
  Claim C10. For a string with a number of fields other than 2 and 4, \<open>addProxy\<close> returns
  \<open>false\<close> (the exception of \<open>parseProxy\<close> is caught inside) and leaves the whole state
  as it is: the list, the statistics and the items of \<open>localStorage\<close>.
\<close>

theorem addProxy_malformed:
  "length (js_split CHR '':'' s) \<noteq> 2 \<Longrightarrow> length (js_split CHR '':'' s) \<noteq> 4
     \<Longrightarrow> addProxy s st = (False, st)"
  by (simp add: addProxy_def parseProxy_def Let_def)

theorem addProxy_malformed_witness:
  "length (js_split CHR '':'' ''10.0.0.1:8080:user'') \<noteq> 2
   \<and> length (js_split CHR '':'' ''10.0.0.1:8080:user'') \<noteq> 4
   \<and> addProxy ''10.0.0.1:8080:user'' example_state = (False, example_state)"
  using addProxy_malformed [of "''10.0.0.1:8080:user''" example_state]
  by (simp add: length_js_split)

subsection \<open>The stored average\<close>
lemma average_invariant_new: "average_invariant new_stats"
  by (simp add: average_invariant_def new_stats_def)

lemma average_invariant_update:
  "average_invariant s \<Longrightarrow> average_invariant (update_stats now success rt blocked s)"
  by (simp add: average_invariant_def update_stats_def Let_def)

lemma proxyStats_updateProxyStats:
  "proxyStats (updateProxyStats now k success rt blocked st) =
     (proxyStats st)(k \<mapsto> update_stats now success rt blocked (stats_or_new st k))"
  by (simp add: updateProxyStats_def saveProxyStats_def stats_or_new_def)

lemma average_invariant_step:
  assumes "\<forall>k s. proxyStats st k = Some s \<longrightarrow> average_invariant s"
  shows "\<forall>k s. proxyStats (updateProxyStats now key success rt blocked st) k = Some s
           \<longrightarrow> average_invariant s"
  using assms
  by (auto simp: proxyStats_updateProxyStats stats_or_new_def average_invariant_new
      average_invariant_update split: option.splits if_splits)

lemma average_invariant_calls:
  "\<forall>k s. proxyStats st k = Some s \<longrightarrow> average_invariant s \<Longrightarrow>
   \<forall>k s. proxyStats (record_outcomes calls st) k = Some s \<longrightarrow> average_invariant s"
proof (induction calls arbitrary: st)
  case Nil
  then show ?case by simp
next
  case (Cons c calls)
  obtain now key success rt blocked where c: "c = (now, key, success, rt, blocked)"
    by (cases c) auto
  show ?case
    unfolding c record_outcomes.simps
    by (rule Cons.IH) (rule average_invariant_step [OF Cons.prems])
qed

text \<open>
  Claim C7, amended. \<open>updateProxyStats\<close> stores \<open>Math.round(totalResponseTime /
  successfulRequests)\<close>, not the quotient itself. If every entry of the statistics has
  this rounded mean as its average when there are successful requests, and the average 0
  when there are none (which holds for no entries at all), then so has every entry after
  any sequence of calls of \<open>updateProxyStats\<close>.
\<close>

theorem average_is_rounded_mean:
  "(\<forall>k s. proxyStats st k = Some s \<longrightarrow> average_invariant s) \<Longrightarrow>
   proxyStats (record_outcomes calls st) k = Some s \<Longrightarrow> average_invariant s"
  using average_invariant_calls by blast

lemma two_successes:
  "proxyStats (record_outcomes [(10, ''10.0.0.1:8080'', True, 1, False),
        (20, ''10.0.0.1:8080'', True, 2, False)] example_state) ''10.0.0.1:8080'' =
     Some \<lparr>totalRequests = 2, successfulRequests = 2, totalResponseTime = 3, lastUsed = 20,
      failures = 0, avgResponseTime = 2, blockedCount = 0, lastBlocked = 0\<rparr>"
  by (simp add: proxyStats_updateProxyStats stats_or_new_def update_stats_def new_stats_def
      example_state_def Math_round_def Let_def)

theorem average_is_rounded_mean_witness:
  "proxyStats example_state = Map.empty
   \<and> proxyStats (record_outcomes [(10, ''10.0.0.1:8080'', True, 1, False),
        (20, ''10.0.0.1:8080'', True, 2, False)] example_state) ''10.0.0.1:8080'' =
     Some \<lparr>totalRequests = 2, successfulRequests = 2, totalResponseTime = 3, lastUsed = 20,
      failures = 0, avgResponseTime = 2, blockedCount = 0, lastBlocked = 0\<rparr>
   \<and> average_invariant
       \<lparr>totalRequests = 2, successfulRequests = 2, totalResponseTime = 3, lastUsed = 20,
        failures = 0, avgResponseTime = 2, blockedCount = 0, lastBlocked = 0\<rparr>"
proof -
  have e: "proxyStats example_state = Map.empty"
    by (simp add: example_state_def)
  then have h1: "\<forall>k s. proxyStats example_state k = Some s \<longrightarrow> average_invariant s"
    by simp
  show ?thesis
    using e two_successes average_is_rounded_mean [OF h1 two_successes] by simp
qed

text \<open>Claim C7 as stated fails: after two successful requests of 1 ms and 2 ms the stored
  average is 2, and the quotient is \<open>3 / 2\<close>.\<close>

theorem average_counterexample:
  "map_option avgResponseTime
     (proxyStats (record_outcomes [(10, ''10.0.0.1:8080'', True, 1, False),
        (20, ''10.0.0.1:8080'', True, 2, False)] example_state) ''10.0.0.1:8080'') = Some 2
   \<and> map_option totalResponseTime
     (proxyStats (record_outcomes [(10, ''10.0.0.1:8080'', True, 1, False),
        (20, ''10.0.0.1:8080'', True, 2, False)] example_state) ''10.0.0.1:8080'') = Some 3
   \<and> map_option successfulRequests
     (proxyStats (record_outcomes [(10, ''10.0.0.1:8080'', True, 1, False),
        (20, ''10.0.0.1:8080'', True, 2, False)] example_state) ''10.0.0.1:8080'') = Some 2
   \<and> real_of_int 2 \<noteq> real_of_int 3 / real_of_int 2
   \<and> (2::int) \<noteq> 3 div 2"
  by (simp only: two_successes) simp

subsection \<open>Well-formed counters\<close>

lemma counters_wf_new: "counters_wf new_stats"
  by (simp add: counters_wf_def new_stats_def)

lemma counters_wf_update:
  "counters_wf s \<Longrightarrow> counters_wf (update_stats t success rt blocked s)"
  by (simp add: counters_wf_def update_stats_def Let_def)

lemma counters_wf_step:
  assumes "\<forall>k s. proxyStats st k = Some s \<longrightarrow> counters_wf s"
  shows "\<forall>k s. proxyStats (updateProxyStats t key success rt blocked st) k = Some s
           \<longrightarrow> counters_wf s"
  using assms
  by (auto simp: proxyStats_updateProxyStats stats_or_new_def counters_wf_new
      counters_wf_update split: option.splits if_splits)

lemma counters_wf_calls:
  "\<forall>k s. proxyStats st k = Some s \<longrightarrow> counters_wf s \<Longrightarrow>
   \<forall>k s. proxyStats (record_outcomes calls st) k = Some s \<longrightarrow> counters_wf s"
proof (induction calls arbitrary: st)
  case Nil
  then show ?case by simp
next
  case (Cons c calls)
  obtain t key success rt blocked where c: "c = (t, key, success, rt, blocked)"
    by (cases c) auto
  show ?case
    unfolding c record_outcomes.simps
    by (rule Cons.IH) (rule counters_wf_step [OF Cons.prems])
qed

lemma counters_wf_blocked: "counters_wf s \<Longrightarrow> 0 < blockedCount s \<Longrightarrow> 0 < totalRequests s"
  by (simp add: counters_wf_def)

subsection \<open>Weights\<close>

lemma weight_floor: "1 / 100 \<le> proxy_weight now stats"
  by (simp add: proxy_weight_def Let_def)

text \<open>
  Claim C8, amended. For an endpoint with requests and with \<open>blockedCount > 0\<close>, the
  weight after the cooldown of one hour is at least the weight during the cooldown, the
  same statistics given; it is greater exactly when the weight after the cooldown is above
  the floor \<open>0.01\<close>.
\<close>

theorem cooldown_raises_weight:
  assumes "0 < totalRequests s" and "0 < blockedCount s"
    and "now1 - lastBlocked s < blockCooldown" and "blockCooldown \<le> now2 - lastBlocked s"
  shows "proxy_weight now1 (Some s) \<le> proxy_weight now2 (Some s) \<and>
         (proxy_weight now1 (Some s) < proxy_weight now2 (Some s)
            \<longleftrightarrow> 1 / 100 < proxy_weight now2 (Some s))"
proof -
  define r where "r = (let successRate = real_of_int (successfulRequests s) / real_of_int (totalRequests s);
                    w0 = successRate * 10
                in (if failures s > 0 then w0 / real_of_int (failures s * 2) else w0))"
  define b where "b = real_of_int (blockedCount s)"
  have b: "0 < b" using assms(2) by (simp add: b_def)
  have w1: "proxy_weight now1 (Some s) = max (r / (b * 10)) (1 / 100)"
    using assms by (simp add: proxy_weight_def r_def b_def Let_def)
  have w2: "proxy_weight now2 (Some s) = max (r / (b * 2)) (1 / 100)"
    using assms by (simp add: proxy_weight_def r_def b_def Let_def)
  show ?thesis
  proof (cases "0 < r")
    case True
    have "r / (b * 10) < r / (b * 2)"
      using True b by (simp add: field_simps)
    then show ?thesis
      unfolding w1 w2 by (auto simp: max_def)
  next
    case False
    then have "r / (b * 10) \<le> 0" "r / (b * 2) \<le> 0"
      using b by (simp_all add: field_simps)
    then show ?thesis
      unfolding w1 w2 by (auto simp: max_def)
  qed
qed

theorem cooldown_raises_weight_witness:
  "0 < totalRequests recovering_stats \<and> 0 < blockedCount recovering_stats
   \<and> 20 - lastBlocked recovering_stats < blockCooldown
   \<and> blockCooldown \<le> 3600010 - lastBlocked recovering_stats
   \<and> proxy_weight 20 (Some recovering_stats) = 1 / 4
   \<and> proxy_weight 3600010 (Some recovering_stats) = 5 / 4
   \<and> proxy_weight 20 (Some recovering_stats) < proxy_weight 3600010 (Some recovering_stats)"
proof -
  have h: "0 < totalRequests recovering_stats" "0 < blockedCount recovering_stats"
    "20 - lastBlocked recovering_stats < blockCooldown"
    "blockCooldown \<le> 3600010 - lastBlocked recovering_stats"
    by (simp_all add: recovering_stats_def blockCooldown_def)
  have w: "proxy_weight 20 (Some recovering_stats) = 1 / 4"
    "proxy_weight 3600010 (Some recovering_stats) = 5 / 4"
    by (simp_all add: proxy_weight_def recovering_stats_def blockCooldown_def)
  show ?thesis
    using h w cooldown_raises_weight [OF h] by simp
qed

subsection \<open>Marking an endpoint as blocked\<close>

lemma stats_after_mark:
  "proxyStats (markProxyAsBlocked t0 t1 t2 t3 k st) k =
     Some ((stats_or_new st k)
       \<lparr>totalRequests := totalRequests (stats_or_new st k) + 4, lastUsed := t3,
        failures := failures (stats_or_new st k) + 4,
        blockedCount := blockedCount (stats_or_new st k) + 1, lastBlocked := t0\<rparr>)"
  by (simp add: markProxyAsBlocked_def proxyStats_updateProxyStats stats_or_new_def
      update_stats_def Let_def)

lemma max_tenth: "x \<le> y / 10 \<Longrightarrow> max x c \<le> max (max y c / 10) (c::real)"
  by (auto simp: max_def)

lemma blocked_weight_bound:
  assumes wf: "counters_wf s" and nb: "blockedCount s = 0"
    and cool: "now - t0 < blockCooldown"
  shows "proxy_weight now (Some (s\<lparr>totalRequests := totalRequests s + 4, lastUsed := t3,
            failures := failures s + 4, blockedCount := blockedCount s + 1, lastBlocked := t0\<rparr>))
         \<le> max (proxy_weight now (Some s) / 10) (1 / 100)"
proof -
  define a where "a = real_of_int (successfulRequests s)"
  define t where "t = real_of_int (totalRequests s)"
  define f where "f = real_of_int (failures s)"
  define d where "d = (if 0 < f then f * 2 else 1)"
  have a: "0 \<le> a" and at: "a \<le> t" and f: "0 \<le> f"
    using wf by (simp_all add: counters_wf_def a_def t_def f_def)
  have after: "proxy_weight now (Some (s\<lparr>totalRequests := totalRequests s + 4, lastUsed := t3,
            failures := failures s + 4, blockedCount := blockedCount s + 1, lastBlocked := t0\<rparr>))
      = max (a / ((t + 4) * (f * 2 + 8))) (1 / 100)"
  proof -
    have "(t + 4) * (20 * f + 80) = 10 * ((t + 4) * (f * 2 + 8))"
      by (simp add: algebra_simps)
    then have "a * 10 / ((t + 4) * (20 * f + 80)) = (10 * a) / (10 * ((t + 4) * (f * 2 + 8)))"
      by (simp only: mult.commute [of a 10])
    also have "\<dots> = a / ((t + 4) * (f * 2 + 8))"
      by (rule mult_divide_mult_cancel_left) simp
    finally show ?thesis
      using wf nb cool by (simp add: proxy_weight_def Let_def counters_wf_def a_def t_def f_def)
  qed
  show ?thesis
  proof (cases "0 < t")
    case True
    have before: "proxy_weight now (Some s) = max (a / t * 10 / d) (1 / 100)"
      using True nb by (simp add: proxy_weight_def Let_def a_def t_def f_def d_def)
    have d: "0 < d" "d \<le> f * 2 + 8"
      using f by (simp_all add: d_def)
    have "t * d \<le> (t + 4) * (f * 2 + 8)"
      using True d f by (intro mult_mono) simp_all
    moreover have "0 < t * d" using True d by simp
    ultimately have "a / ((t + 4) * (f * 2 + 8)) \<le> a / (t * d)"
      using a by (intro divide_left_mono) (simp_all add: mult_pos_pos)
    also have "a / (t * d) = a / t * 10 / d / 10" by simp
    finally have "a / ((t + 4) * (f * 2 + 8)) \<le> a / t * 10 / d / 10" .
    then show ?thesis
      unfolding after before by (rule max_tenth)
  next
    case False
    then have t0: "t = 0" and a0: "a = 0" using a at by simp_all
    have before: "proxy_weight now (Some s) = 1"
      using t0 by (simp add: proxy_weight_def Let_def t_def)
    show ?thesis
      unfolding after before by (simp add: a0)
  qed
qed

text \<open>
  Claim C6, amended. For a key whose statistics have \<open>blockedCount = 0\<close> and well-formed
  counters (or that has no statistics yet), \<open>markProxyAsBlocked\<close> leaves
  \<open>blockedCount = 1\<close>, \<open>failures\<close> increased by 4 and \<open>lastBlocked\<close> equal to the clock of
  its first update; within the cooldown the weight is then at most a tenth of the weight
  before, or the floor \<open>0.01\<close> where that is more.
\<close>

theorem markProxyAsBlocked_effect:
  assumes "blockedCount (stats_or_new st k) = 0" and "counters_wf (stats_or_new st k)"
    and "now - t0 < blockCooldown"
  shows "\<exists>s'. proxyStats (markProxyAsBlocked t0 t1 t2 t3 k st) k = Some s'
           \<and> blockedCount s' = 1
           \<and> failures s' = failures (stats_or_new st k) + 4
           \<and> lastBlocked s' = t0
           \<and> proxy_weight now (Some s') \<le> max (proxy_weight now (proxyStats st k) / 10) (1 / 100)"
proof (cases "proxyStats st k")
  case None
  then have new: "stats_or_new st k = new_stats" by (simp add: stats_or_new_def)
  have "proxy_weight now (Some (new_stats\<lparr>totalRequests := totalRequests new_stats + 4,
            lastUsed := t3, failures := failures new_stats + 4,
            blockedCount := blockedCount new_stats + 1, lastBlocked := t0\<rparr>))
         \<le> max (proxy_weight now (Some new_stats) / 10) (1 / 100)"
    using assms by (intro blocked_weight_bound) (simp_all add: new)
  moreover have "proxy_weight now (Some new_stats) = proxy_weight now None"
    by (simp add: proxy_weight_def new_stats_def)
  ultimately show ?thesis
    using assms(1) by (simp add: stats_after_mark new None)
next
  case (Some s)
  then have s: "stats_or_new st k = s" by (simp add: stats_or_new_def)
  show ?thesis
    using assms blocked_weight_bound [of s now t0 t3]
    by (simp add: stats_after_mark s Some)
qed

lemma failed_once_stats:
  "proxyStats failed_once ''10.0.0.1:8080'' =
     Some \<lparr>totalRequests = 1, successfulRequests = 0, totalResponseTime = 0, lastUsed = 5,
      failures = 1, avgResponseTime = 0, blockedCount = 0, lastBlocked = 0\<rparr>"
  by (simp add: failed_once_def proxyStats_updateProxyStats stats_or_new_def update_stats_def
      new_stats_def example_state_def Let_def)

lemma failed_once_blocked_stats:
  "proxyStats (markProxyAsBlocked 10 10 10 10 ''10.0.0.1:8080'' failed_once) ''10.0.0.1:8080'' =
     Some \<lparr>totalRequests = 5, successfulRequests = 0, totalResponseTime = 0, lastUsed = 10,
      failures = 5, avgResponseTime = 0, blockedCount = 1, lastBlocked = 10\<rparr>"
  by (simp add: stats_after_mark stats_or_new_def failed_once_stats)

theorem markProxyAsBlocked_effect_witness:
  "blockedCount (stats_or_new failed_once ''10.0.0.1:8080'') = 0
   \<and> counters_wf (stats_or_new failed_once ''10.0.0.1:8080'')
   \<and> 20 - 10 < blockCooldown
   \<and> (\<exists>s'. proxyStats (markProxyAsBlocked 10 11 12 13 ''10.0.0.1:8080'' failed_once)
              ''10.0.0.1:8080'' = Some s'
           \<and> blockedCount s' = 1
           \<and> failures s' = failures (stats_or_new failed_once ''10.0.0.1:8080'') + 4
           \<and> lastBlocked s' = 10
           \<and> proxy_weight 20 (Some s')
               \<le> max (proxy_weight 20 (proxyStats failed_once ''10.0.0.1:8080'') / 10) (1 / 100))"
proof -
  have h1: "blockedCount (stats_or_new failed_once ''10.0.0.1:8080'') = 0"
    by (simp add: stats_or_new_def failed_once_stats)
  have h2: "counters_wf (stats_or_new failed_once ''10.0.0.1:8080'')"
    by (simp add: stats_or_new_def failed_once_stats counters_wf_def)
  have h3: "20 - 10 < blockCooldown"
    by (simp add: blockCooldown_def)
  show ?thesis
    using h1 h2 h3 markProxyAsBlocked_effect [OF h1 h2 h3, of 11 12 13] by simp
qed

text \<open>Claim C6 as stated fails at the floor: an endpoint with one failed request has the
  weight \<open>0.01\<close> before and after it is marked as blocked.\<close>

theorem markProxyAsBlocked_weight_counterexample:
  "map_option blockedCount (proxyStats failed_once ''10.0.0.1:8080'') = Some 0
   \<and> 20 - 10 < blockCooldown
   \<and> proxy_weight 20 (proxyStats failed_once ''10.0.0.1:8080'') = 1 / 100
   \<and> proxy_weight 20
        (proxyStats (markProxyAsBlocked 10 10 10 10 ''10.0.0.1:8080'' failed_once) ''10.0.0.1:8080'')
       = 1 / 100
   \<and> \<not> proxy_weight 20
        (proxyStats (markProxyAsBlocked 10 10 10 10 ''10.0.0.1:8080'' failed_once) ''10.0.0.1:8080'')
       \<le> proxy_weight 20 (proxyStats failed_once ''10.0.0.1:8080'') / 10"
  by (simp add: failed_once_blocked_stats failed_once_stats proxy_weight_def blockCooldown_def)

text \<open>Claim C8 as stated fails at the floor: an endpoint that was marked as blocked before
  it ever succeeded has the weight \<open>0.01\<close> during and after the cooldown.\<close>

lemma blocked_fresh_stats:
  "proxyStats blocked_fresh ''10.0.0.1:8080'' =
     Some \<lparr>totalRequests = 4, successfulRequests = 0, totalResponseTime = 0, lastUsed = 10,
      failures = 4, avgResponseTime = 0, blockedCount = 1, lastBlocked = 10\<rparr>"
  by (simp add: blocked_fresh_def stats_after_mark stats_or_new_def example_state_def new_stats_def)

theorem cooldown_counterexample:
  "map_option blockedCount (proxyStats blocked_fresh ''10.0.0.1:8080'') = Some 1
   \<and> 20 - 10 < blockCooldown \<and> blockCooldown \<le> 3600010 - 10
   \<and> proxy_weight 20 (proxyStats blocked_fresh ''10.0.0.1:8080'') = 1 / 100
   \<and> proxy_weight 3600010 (proxyStats blocked_fresh ''10.0.0.1:8080'') = 1 / 100"
  by (simp add: blocked_fresh_stats proxy_weight_def blockCooldown_def)

subsection \<open>Numbers as strings\<close>

lemma digit_val_decimal:
  "digit_val 10 CHR ''0'' = Some 0" "digit_val 10 CHR ''1'' = Some 1"
  "digit_val 10 CHR ''2'' = Some 2" "digit_val 10 CHR ''3'' = Some 3"
  "digit_val 10 CHR ''4'' = Some 4" "digit_val 10 CHR ''5'' = Some 5"
  "digit_val 10 CHR ''6'' = Some 6" "digit_val 10 CHR ''7'' = Some 7"
  "digit_val 10 CHR ''8'' = Some 8" "digit_val 10 CHR ''9'' = Some 9"
  by (simp_all add: digit_val_def digit_table_def)

lemma digit_char_decimal:
  "digit_char 0 = CHR ''0''" "digit_char 1 = CHR ''1''" "digit_char (Suc 0) = CHR ''1''" "digit_char 2 = CHR ''2''"
  "digit_char 3 = CHR ''3''" "digit_char 4 = CHR ''4''" "digit_char 5 = CHR ''5''"
  "digit_char 6 = CHR ''6''" "digit_char 7 = CHR ''7''" "digit_char 8 = CHR ''8''"
  "digit_char 9 = CHR ''9''"
  by (simp_all add: digit_char_def)

lemma is_digit_decimalD:
  assumes "is_digit 10 c"
  shows "c \<in> set ''0123456789''"
proof -
  from assms obtain d where d: "map_of digit_table c = Some d" "d < 10"
    by (auto simp: is_digit_def digit_val_def split: option.splits if_splits)
  from d(1) have "(c, d) \<in> set digit_table"
    by (rule map_of_SomeD)
  with d(2) show ?thesis
    by (auto simp: digit_table_def)
qed

lemma decimal_digit_disj:
  assumes "is_digit 10 c"
  shows "c = CHR ''0'' \<or> c = CHR ''1'' \<or> c = CHR ''2'' \<or> c = CHR ''3''
      \<or> c = CHR ''4'' \<or> c = CHR ''5'' \<or> c = CHR ''6'' \<or> c = CHR ''7''
      \<or> c = CHR ''8'' \<or> c = CHR ''9''"
  using is_digit_decimalD [OF assms] by simp

lemma decimal_digit_char:
  assumes "is_digit 10 c"
  shows "\<exists>d<10. digit_val 10 c = Some d \<and> digit_char d = c"
  using decimal_digit_disj [OF assms]
  by (elim disjE) (simp_all add: digit_val_decimal digit_char_decimal)

lemma decimal_digit_plain:
  assumes "is_digit 10 c"
  shows "\<not> is_ws c \<and> c \<noteq> CHR ''-'' \<and> c \<noteq> CHR ''+'' \<and> c \<noteq> CHR ''x'' \<and> c \<noteq> CHR ''X''
         \<and> c \<noteq> CHR '':''"
  using decimal_digit_disj [OF assms]
  by (elim disjE) (simp_all add: is_ws_def)

lemma digits_value_snoc:
  "digits_value r (ds @ [c]) =
     digits_value r ds * r + (case digit_val r c of None \<Rightarrow> 0 | Some d \<Rightarrow> d)"
  by (simp add: digits_value_def)

lemma digits_of_step: "0 < n \<Longrightarrow> d < 10 \<Longrightarrow> digits_of (n * 10 + d) = digits_of n @ [digit_char d]"
  by (subst digits_of.simps) simp

lemma digits_of_small: "d < 10 \<Longrightarrow> digits_of d = [digit_char d]"
  by (subst digits_of.simps) simp

lemma digits_of_value:
  "ds \<noteq> [] \<Longrightarrow> list_all (is_digit 10) ds \<Longrightarrow> hd ds \<noteq> CHR ''0''
     \<Longrightarrow> 0 < digits_value 10 ds \<and> digits_of (digits_value 10 ds) = ds"
proof (induction ds rule: rev_induct)
  case Nil
  then show ?case by simp
next
  case (snoc c ds)
  from snoc.prems obtain d where d: "d < 10" "digit_val 10 c = Some d" "digit_char d = c"
    using decimal_digit_char [of c] by auto
  show ?case
  proof (cases "ds = []")
    case True
    have "d \<noteq> 0"
    proof
      assume "d = 0"
      with d(3) have "c = CHR ''0''" by (simp add: digit_char_def)
      with snoc.prems(3) True show False by simp
    qed
    with d True show ?thesis
      by (simp add: digits_value_snoc digits_of_small digits_value_def)
  next
    case False
    with snoc have IH: "0 < digits_value 10 ds" "digits_of (digits_value 10 ds) = ds"
      by auto
    show ?thesis
      using IH d by (simp add: digits_value_snoc digits_of_step)
  qed
qed

lemma canonical_digits_of:
  assumes "canonical_port ds"
  shows "digits_of (digits_value 10 ds) = ds"
proof (cases "hd ds = CHR ''0''")
  case True
  with assms have "ds = ''0''"
    by (cases ds) (auto simp: canonical_port_def)
  then show ?thesis
    by (simp add: digits_value_def digit_val_decimal digits_of_small digit_char_decimal)
next
  case False
  with assms show ?thesis
    using digits_of_value [of ds] by (simp add: canonical_port_def)
qed

lemma canonical_parseInt:
  assumes "canonical_port ds"
  shows "parseInt ds = Some (int (digits_value 10 ds))"
proof -
  from assms obtain c cs where ds: "ds = c # cs" and c: "is_digit 10 c"
    and cs: "list_all (is_digit 10) cs"
    by (cases ds) (auto simp: canonical_port_def)
  have 1: "dropWhile is_ws ds = ds"
    using decimal_digit_plain [OF c] by (simp add: ds)
  have 2: "take 1 ds \<noteq> ''-''" "take 1 ds \<noteq> ''+''"
    using decimal_digit_plain [OF c] by (simp_all add: ds)
  have x: "cs \<noteq> [] \<Longrightarrow> hd cs \<noteq> CHR ''x'' \<and> hd cs \<noteq> CHR ''X''"
    using cs decimal_digit_plain [of "hd cs"] by (cases cs) simp_all
  have 3: "take 2 ds \<noteq> ''0x''" "take 2 ds \<noteq> ''0X''"
    using x by (cases cs; simp add: ds)+
  have 4: "takeWhile (is_digit 10) ds = ds"
    using c cs by (simp add: ds list_all_iff)
  have 5: "ds \<noteq> []" by (simp add: ds)
  show ?thesis
    unfolding parseInt_def Let_def 1 by (simp only: 2 3 4 5 simp_thms if_False if_True) simp
qed

lemma canonical_port_string:
  "canonical_port p \<Longrightarrow> number_to_string (parseInt p) = p"
  by (simp add: canonical_parseInt canonical_digits_of number_to_string_def)

lemma canonical_no_colon: "canonical_port p \<Longrightarrow> CHR '':'' \<notin> set p"
  using decimal_digit_plain by (auto simp: canonical_port_def list_all_iff)

lemma parseInt_examples:
  "parseInt ''8080'' = Some 8080" "parseInt ''08080'' = Some 8080"
  by (simp_all add: parseInt_def is_ws_def is_digit_def digit_val_decimal digits_value_def)

lemma digits_of_8080: "digits_of 8080 = ''8080''"
  by (simp add: digits_of.simps [of "numeral k" for k] digit_char_def)

subsection \<open>Parsing and writing endpoints\<close>

lemma parseProxy_four:
  "js_split CHR '':'' s = [h, p, u, w] \<Longrightarrow>
   parseProxy s = Inr \<lparr>host = h, port = parseInt p, username = Some u, password = Some w,
                       proxy = h @ '':'' @ p\<rparr>"
  by (simp add: parseProxy_def)

lemma parseProxy_two:
  "js_split CHR '':'' s = [h, p] \<Longrightarrow>
   parseProxy s = Inr \<lparr>host = h, port = parseInt p, username = None, password = None,
                       proxy = h @ '':'' @ p\<rparr>"
  by (simp add: parseProxy_def)

lemma parse_examples:
  "parseProxy ''10.0.0.1:8080'' = Inr example_proxy"
  "parseProxy ''10.0.0.1:8080:user:secret'' =
     Inr \<lparr>host = ''10.0.0.1'', port = Some 8080, username = Some ''user'',
          password = Some ''secret'', proxy = ''10.0.0.1:8080''\<rparr>"
  "parseProxy ''10.0.0.1:8080:user:'' =
     Inr \<lparr>host = ''10.0.0.1'', port = Some 8080, username = Some ''user'',
          password = Some [], proxy = ''10.0.0.1:8080''\<rparr>"
  "parseProxy ''10.0.0.1:08080'' =
     Inr \<lparr>host = ''10.0.0.1'', port = Some 8080, username = None,
          password = None, proxy = ''10.0.0.1:08080''\<rparr>"
  by (simp_all add: parseProxy_def parseInt_examples example_proxy_def)

lemma to_string_examples:
  "proxy_to_string \<lparr>host = ''10.0.0.1'', port = Some 8080, username = Some ''user'',
          password = Some ''secret'', proxy = ''10.0.0.1:8080''\<rparr> = ''10.0.0.1:8080:user:secret''"
  "proxy_to_string \<lparr>host = ''10.0.0.1'', port = Some 8080, username = Some ''user'',
          password = Some [], proxy = ''10.0.0.1:8080''\<rparr> = ''10.0.0.1:8080''"
  "proxy_to_string \<lparr>host = ''10.0.0.1'', port = Some 8080, username = None,
          password = None, proxy = ''10.0.0.1:08080''\<rparr> = ''10.0.0.1:8080''"
  by (simp_all add: proxy_to_string_def truthy_def number_to_string_def digits_of_8080)

text \<open>
  Claim C5, amended. For every string that \<open>parseProxy\<close> accepts and whose port field is
  a decimal number without leading zeros, writing the endpoint as \<open>saveProxyList\<close> does
  and parsing it again gives an endpoint with the same host, port and key and the same
  proxy configuration. The user name and password are the same if both are non-empty or
  the string has two fields, and then the string itself is the same; otherwise both come
  back as \<open>null\<close>.
\<close>

theorem parse_serialize_roundtrip:
  assumes "parseProxy s = Inr e" and "canonical_port (js_split CHR '':'' s ! 1)"
  shows "parseProxy (proxy_to_string e) =
           Inr (if truthy (username e) \<and> truthy (password e) then e
                else e\<lparr>username := None, password := None\<rparr>)
         \<and> getProxyConfig (if truthy (username e) \<and> truthy (password e) then e
                else e\<lparr>username := None, password := None\<rparr>) = getProxyConfig e
         \<and> (username e = None \<or> truthy (username e) \<and> truthy (password e)
              \<longrightarrow> proxy_to_string e = s)"
proof -
  define parts where "parts = js_split CHR '':'' s"
  have nosep: "\<And>x. x \<in> set parts \<Longrightarrow> CHR '':'' \<notin> set x"
    unfolding parts_def by (rule js_split_no_sep)
  have port: "number_to_string (parseInt (parts ! 1)) = parts ! 1"
    using assms(2) unfolding parts_def by (rule canonical_port_string)
  have len: "length parts = 2 \<or> length parts = 4"
    using assms(1) unfolding parts_def parseProxy_def Let_def by (auto split: if_splits)
  then show ?thesis
  proof
    assume l2: "length parts = 2"
    then obtain h p where hp: "parts = [h, p]" using list_two by blast
    have e: "e = \<lparr>host = h, port = parseInt p, username = None, password = None,
                   proxy = h @ '':'' @ p\<rparr>"
      using assms(1) parseProxy_two [of s h p] hp by (simp add: parts_def)
    have s: "s = h @ '':'' @ p"
      using js_split_two [of "CHR '':''" s h p] hp by (simp add: parts_def)
    have str: "proxy_to_string e = h @ '':'' @ p"
      using port hp by (simp add: e proxy_to_string_def truthy_def)
    have "js_split CHR '':'' (h @ '':'' @ p) = [h, p]"
      using nosep hp by (intro split_host_port) simp_all
    then have "parseProxy (proxy_to_string e) = Inr e"
      unfolding str using parseProxy_two [of "h @ '':'' @ p" h p] by (simp add: e)
    then show ?thesis
      using str s by (simp add: e truthy_def)
  next
    assume l4: "length parts = 4"
    then obtain h p u w where hp: "parts = [h, p, u, w]" using list_four by blast
    have e: "e = \<lparr>host = h, port = parseInt p, username = Some u, password = Some w,
                   proxy = h @ '':'' @ p\<rparr>"
      using assms(1) parseProxy_four [of s h p u w] hp by (simp add: parts_def)
    have s: "s = h @ '':'' @ p @ '':'' @ u @ '':'' @ w"
      using js_split_four [of "CHR '':''" s h p u w] hp by (simp add: parts_def)
    show ?thesis
    proof (cases "u \<noteq> [] \<and> w \<noteq> []")
      case True
      have str: "proxy_to_string e = h @ '':'' @ p @ '':'' @ u @ '':'' @ w"
        using port hp True by (simp add: e proxy_to_string_def truthy_def)
      have "js_split CHR '':'' (h @ '':'' @ p @ '':'' @ u @ '':'' @ w) = [h, p, u, w]"
        using nosep hp by (intro split_four_fields) simp_all
      then have "parseProxy (proxy_to_string e) = Inr e"
        unfolding str using parseProxy_four [of "h @ '':'' @ p @ '':'' @ u @ '':'' @ w" h p u w]
        by (simp add: e)
      then show ?thesis
        using str s True by (simp add: e truthy_def)
    next
      case False
      have str: "proxy_to_string e = h @ '':'' @ p"
        using port hp False by (auto simp: e proxy_to_string_def truthy_def)
      have "js_split CHR '':'' (h @ '':'' @ p) = [h, p]"
        using nosep hp by (intro split_host_port) simp_all
      then have "parseProxy (proxy_to_string e) = Inr (e\<lparr>username := None, password := None\<rparr>)"
        unfolding str using parseProxy_two [of "h @ '':'' @ p" h p] by (simp add: e)
      then show ?thesis
        using False by (auto simp: e truthy_def getProxyConfig_def)
    qed
  qed
qed

lemma canonical_8080: "canonical_port (js_split CHR '':'' ''10.0.0.1:8080:user:secret'' ! 1)"
  by (simp add: canonical_port_def is_digit_def digit_val_decimal)

theorem parse_serialize_roundtrip_witness:
  "parseProxy ''10.0.0.1:8080:user:secret'' =
     Inr \<lparr>host = ''10.0.0.1'', port = Some 8080, username = Some ''user'',
          password = Some ''secret'', proxy = ''10.0.0.1:8080''\<rparr>
   \<and> canonical_port (js_split CHR '':'' ''10.0.0.1:8080:user:secret'' ! 1)
   \<and> parseProxy (proxy_to_string \<lparr>host = ''10.0.0.1'', port = Some 8080,
          username = Some ''user'', password = Some ''secret'', proxy = ''10.0.0.1:8080''\<rparr>) =
     Inr \<lparr>host = ''10.0.0.1'', port = Some 8080, username = Some ''user'',
          password = Some ''secret'', proxy = ''10.0.0.1:8080''\<rparr>
   \<and> proxy_to_string \<lparr>host = ''10.0.0.1'', port = Some 8080,
          username = Some ''user'', password = Some ''secret'', proxy = ''10.0.0.1:8080''\<rparr> =
     ''10.0.0.1:8080:user:secret''"
  using parse_examples(2) canonical_8080
    parse_serialize_roundtrip [OF parse_examples(2) canonical_8080]
  by (simp add: truthy_def)

text \<open>Claim C5 as stated fails: a user name with an empty password is lost, and a port
  written \<open>08080\<close> changes the key.\<close>

theorem roundtrip_counterexample:
  "parseProxy ''10.0.0.1:8080:user:'' =
     Inr \<lparr>host = ''10.0.0.1'', port = Some 8080, username = Some ''user'',
          password = Some [], proxy = ''10.0.0.1:8080''\<rparr>
   \<and> proxy_to_string \<lparr>host = ''10.0.0.1'', port = Some 8080, username = Some ''user'',
          password = Some [], proxy = ''10.0.0.1:8080''\<rparr> = ''10.0.0.1:8080''
   \<and> parseProxy ''10.0.0.1:8080'' =
     Inr \<lparr>host = ''10.0.0.1'', port = Some 8080, username = None,
          password = None, proxy = ''10.0.0.1:8080''\<rparr>
   \<and> parseProxy ''10.0.0.1:08080'' =
     Inr \<lparr>host = ''10.0.0.1'', port = Some 8080, username = None,
          password = None, proxy = ''10.0.0.1:08080''\<rparr>
   \<and> proxy_to_string \<lparr>host = ''10.0.0.1'', port = Some 8080, username = None,
          password = None, proxy = ''10.0.0.1:08080''\<rparr> = ''10.0.0.1:8080''
   \<and> ''10.0.0.1:8080'' \<noteq> ''10.0.0.1:08080''"
  using parse_examples to_string_examples by (simp add: example_proxy_def)

subsection \<open>Loading the list\<close>

lemma default_keys:
  "map proxy default_entries =
     [''38.154.227.167:5868'', ''198.23.239.134:6540'', ''207.244.217.165:6712'',
      ''107.172.163.27:6543'', ''216.10.27.159:6837'', ''136.0.207.84:6661'',
      ''64.64.118.149:6732'', ''142.147.128.93:6593'', ''104.239.105.125:6655'',
      ''206.41.172.74:6634'', ''156.253.166.39:3129'', ''154.213.193.50:3129'',
      ''156.248.82.131:3129'', ''156.242.34.12:3129'', ''45.201.10.76:3129'',
      ''156.242.33.139:3129'', ''156.228.176.249:3129'', ''154.213.166.44:3129'']"
  by (simp add: default_entries_def DEFAULT_PROXY_LIST_def parseProxy_four)

lemma map_parseProxy_default:
  "map_parseProxy (map JString DEFAULT_PROXY_LIST) = Inr default_entries"
  by (simp add: default_entries_def DEFAULT_PROXY_LIST_def parseProxy_four)

lemma length_default_entries: "length default_entries = 18"
  using arg_cong [OF default_keys, of length] by simp

lemma default_entries_not_Nil: "default_entries \<noteq> []"
  using length_default_entries by auto

lemma map_parseProxy_malformed:
  "JString bad \<in> set xs \<Longrightarrow> length (js_split CHR '':'' bad) \<noteq> 2
     \<Longrightarrow> length (js_split CHR '':'' bad) \<noteq> 4 \<Longrightarrow> \<exists>e. map_parseProxy xs = Inl e"
proof (induction xs)
  case Nil
  then show ?case by simp
next
  case (Cons x xs)
  show ?case
  proof (cases x)
    case (JString s)
    show ?thesis
    proof (cases "parseProxy s")
      case (Inl e)
      with JString show ?thesis by simp
    next
      case (Inr p)
      with Cons.prems have "bad \<noteq> s"
        by (auto simp: parseProxy_def Let_def split: if_splits)
      with Cons JString have "\<exists>e. map_parseProxy xs = Inl e" by simp
      with JString Inr show ?thesis by auto
    qed
  next
    case (JArray v)
    then show ?thesis by simp
  next
    case JOther
    then show ?thesis by simp
  qed
qed

lemma loadProxyList_map_throws:
  assumes "\<not> ls_get_throws st"
    and "ls_proxy_list st = Some (Parses (JArray savedList))"
    and "savedList \<noteq> []"
    and "map_parseProxy savedList = Inl e"
  shows "loadProxyList st = st\<lparr>proxyList := default_entries\<rparr>"
  using assms by (simp add: loadProxyList_def)

text \<open>
  Claim C4, amended. When the stored list has a malformed entry, \<open>loadProxyList\<close> keeps
  none of the stored entries: \<open>map\<close> throws, the exception is caught, and the list
  becomes the built-in default list; the stored item is left as it is.
\<close>

theorem loadProxyList_malformed_entry:
  assumes "\<not> ls_get_throws st"
    and "ls_proxy_list st = Some (Parses (JArray savedList))"
    and "JString bad \<in> set savedList"
    and "length (js_split CHR '':'' bad) \<noteq> 2" and "length (js_split CHR '':'' bad) \<noteq> 4"
  shows "loadProxyList st = st\<lparr>proxyList := default_entries\<rparr>"
proof -
  obtain e where "map_parseProxy savedList = Inl e"
    using map_parseProxy_malformed [OF assms(3,4,5)] by blast
  moreover have "savedList \<noteq> []" using assms(3) by auto
  ultimately show ?thesis
    using assms(1,2) by (intro loadProxyList_map_throws)
qed

theorem loadProxyList_malformed_entry_witness:
  "\<not> ls_get_throws stored_with_bad_entry
   \<and> ls_proxy_list stored_with_bad_entry =
       Some (Parses (JArray [JString ''10.0.0.1:8080'', JString ''10.0.0.2'']))
   \<and> JString ''10.0.0.2'' \<in> set [JString ''10.0.0.1:8080'', JString ''10.0.0.2'']
   \<and> length (js_split CHR '':'' ''10.0.0.2'') \<noteq> 2
   \<and> length (js_split CHR '':'' ''10.0.0.2'') \<noteq> 4
   \<and> loadProxyList stored_with_bad_entry =
       stored_with_bad_entry\<lparr>proxyList := default_entries\<rparr>"
proof -
  have h1: "\<not> ls_get_throws stored_with_bad_entry"
    by (simp add: stored_with_bad_entry_def example_state_def)
  have h2: "ls_proxy_list stored_with_bad_entry =
       Some (Parses (JArray [JString ''10.0.0.1:8080'', JString ''10.0.0.2'']))"
    by (simp add: stored_with_bad_entry_def example_state_def)
  have h3: "JString ''10.0.0.2'' \<in> set [JString ''10.0.0.1:8080'', JString ''10.0.0.2'']"
    by simp
  have h4: "length (js_split CHR '':'' ''10.0.0.2'') \<noteq> 2"
    and h5: "length (js_split CHR '':'' ''10.0.0.2'') \<noteq> 4"
    by (simp_all add: length_js_split)
  from loadProxyList_malformed_entry [OF h1 h2 h3 h4 h5] show ?thesis
    using h1 h2 h3 h4 h5 by simp
qed

text \<open>Claim C4 as stated fails: with the stored list \<open>["10.0.0.1:8080", "10.0.0.2"]\<close>
  the well-formed entry is not kept; the list is the default list of 18 endpoints.\<close>

lemma stored_with_bad_entry_load:
  "proxyList (loadProxyList stored_with_bad_entry) = default_entries"
proof -
  have "map_parseProxy [JString ''10.0.0.1:8080'', JString ''10.0.0.2'']
          = Inl (Error ''Invalid proxy format: 10.0.0.2'')"
    by (simp add: parseProxy_def)
  from loadProxyList_map_throws [OF _ _ _ this, of stored_with_bad_entry] show ?thesis
    by (simp add: stored_with_bad_entry_def example_state_def)
qed

theorem loadProxyList_counterexample:
  "ls_proxy_list stored_with_bad_entry =
     Some (Parses (JArray [JString ''10.0.0.1:8080'', JString ''10.0.0.2'']))
   \<and> parseProxy ''10.0.0.1:8080'' = Inr example_proxy
   \<and> proxyList (loadProxyList stored_with_bad_entry) = default_entries
   \<and> length default_entries = 18
   \<and> proxy example_proxy \<notin> set (map proxy default_entries)"
  using parse_examples(1) stored_with_bad_entry_load length_default_entries
  by (simp add: default_keys example_proxy_def stored_with_bad_entry_def example_state_def)

subsection \<open>The request wrapper: frame and trace\<close>

lemma site_simps [simp]:
  "is_attempt (ProxyAttempt n p)" "\<not> is_attempt (GetReissue n p)" "\<not> is_attempt DirectDisabled"
  "\<not> is_attempt DirectExhausted" "\<not> is_attempt DirectNoProxy" "\<not> is_attempt DirectAutoDisabled"
  "is_reissue (GetReissue n p)" "\<not> is_reissue (ProxyAttempt n p)" "\<not> is_reissue DirectDisabled"
  "\<not> is_reissue DirectExhausted" "\<not> is_reissue DirectNoProxy" "\<not> is_reissue DirectAutoDisabled"
  by (simp_all add: is_attempt_def is_reissue_def)

lemma sent_simps [simp]:
  "fst (sent d r) = fst r" "fst (snd (sent d r)) = fst (snd r)"
  "snd (snd (sent d r)) = d # snd (snd r)"
  by (simp_all add: sent_def split: prod.splits)

lemma sent_eq: "sent d (res, st, tr) = (res, st, d # tr)"
  by (simp add: sent_def)

lemma is_direct_site_simps [simp]:
  "\<not> is_direct_site (ProxyAttempt n p)" "\<not> is_direct_site (GetReissue n p)"
  "is_direct_site DirectDisabled" "is_direct_site DirectExhausted"
  "is_direct_site DirectNoProxy" "is_direct_site DirectAutoDisabled"
  by (simp_all add: is_direct_site_def)

lemma is_proxied_simps [simp]:
  "is_proxied (ProxyAttempt n p)" "is_proxied (GetReissue n p)" "\<not> is_proxied DirectDisabled"
  "\<not> is_proxied DirectExhausted" "\<not> is_proxied DirectNoProxy" "\<not> is_proxied DirectAutoDisabled"
  by (simp_all add: is_proxied_def)

lemma starts_attempt_simps [simp]:
  "starts_attempt n DirectExhausted" "starts_attempt n DirectNoProxy"
  "starts_attempt n (ProxyAttempt m q) \<longleftrightarrow> m = n" "\<not> starts_attempt n (GetReissue m q)"
  "\<not> starts_attempt n DirectAutoDisabled" "\<not> starts_attempt n DirectDisabled"
  by (auto simp: starts_attempt_def)

lemma updateProxyStats_frame [simp]:
  "http405Count (updateProxyStats t k s rt b st) = http405Count st"
  "proxyList (updateProxyStats t k s rt b st) = proxyList st"
  "ls_proxy_enabled (updateProxyStats t k s rt b st) = ls_proxy_enabled st"
  "ls_get_throws (updateProxyStats t k s rt b st) = ls_get_throws st"
  "ls_set_throws (updateProxyStats t k s rt b st) = ls_set_throws st"
  by (simp_all add: updateProxyStats_def saveProxyStats_def)

lemma ensureProxyDataLoaded_frame [simp]:
  "http405Count (ensureProxyDataLoaded st) = http405Count st"
  "ls_proxy_enabled (ensureProxyDataLoaded st) = ls_proxy_enabled st"
  "ls_get_throws (ensureProxyDataLoaded st) = ls_get_throws st"
  "ls_set_throws (ensureProxyDataLoaded st) = ls_set_throws st"
  by (simp_all add: ensureProxyDataLoaded_def loadProxyStats_def loadProxyList_def
      saveProxyList_def Let_def split: option.splits stored_text.splits json.splits sum.splits)

lemma snd_selectRandomProxy: "snd (selectRandomProxy d ex st) = ensureProxyDataLoaded st"
  by (simp add: selectRandomProxy_def Let_def split: option.splits)

lemma selectRandomProxy_frame:
  assumes "selectRandomProxy d ex st = (x, st1)"
  shows "http405Count st1 = http405Count st" "ls_proxy_enabled st1 = ls_proxy_enabled st"
    "ls_get_throws st1 = ls_get_throws st" "ls_set_throws st1 = ls_set_throws st"
  using snd_selectRandomProxy [of d ex st] assms by simp_all

lemma setProxyEnabled_frame [simp]:
  "http405Count (setProxyEnabled b st) = http405Count st"
  "ls_get_throws (setProxyEnabled b st) = ls_get_throws st"
  "ls_set_throws (setProxyEnabled b st) = ls_set_throws st"
  "proxyList (setProxyEnabled b st) = proxyList st"
  by (simp_all add: setProxyEnabled_def Let_def)

lemma proxyStatsTimeout_fires_frame [simp]:
  "http405Count (proxyStatsTimeout_fires st) = http405Count st"
  "ls_proxy_enabled (proxyStatsTimeout_fires st) = ls_proxy_enabled st"
  "ls_set_throws (proxyStatsTimeout_fires st) = ls_set_throws st"
  by (simp_all add: proxyStatsTimeout_fires_def Let_def)

text \<open>The shape of the runs.\<close>

lemma direct_dispatch_simps [simp]:
  "fst (direct_dispatch s opts res st evs) = res"
  "length (snd (snd (direct_dispatch s opts res st evs))) = 1"
  "snd (snd (direct_dispatch s opts res st evs)) \<noteq> []"
  "map d_site (snd (snd (direct_dispatch s opts res st evs))) = [s]"
  "map d_request (snd (snd (direct_dispatch s opts res st evs))) = [direct_request opts]"
  "d_site (hd (snd (snd (direct_dispatch s opts res st evs)))) = s"
  "d_site (last (snd (snd (direct_dispatch s opts res st evs)))) = s"
  "filter (\<lambda>d. P (d_site d)) (snd (snd (direct_dispatch s opts res st evs))) =
     (if P s then snd (snd (direct_dispatch s opts res st evs)) else [])"
  "butlast (snd (snd (direct_dispatch s opts res st evs))) = []"
  by (simp_all add: direct_dispatch_def Let_def)

lemma attemptRequest_cases [case_names exhausted none some]:
  assumes "a + 1 > MAX_PROXY_RETRIES \<Longrightarrow>
      P (direct_dispatch DirectExhausted opts (direct_exhausted evs) st evs)"
    and "\<And>st1. \<not> a + 1 > MAX_PROXY_RETRIES \<Longrightarrow>
      selectRandomProxy (env (a + 1)) ex st = (None, st1) \<Longrightarrow>
      P (direct_dispatch DirectNoProxy opts (direct_no_proxy (a + 1) evs) st1 evs)"
    and "\<And>p st1. \<not> a + 1 > MAX_PROXY_RETRIES \<Longrightarrow>
      selectRandomProxy (env (a + 1)) ex st = (Some p, st1) \<Longrightarrow>
      P (proxy_dispatch opts env p False st1 ex (a + 1) evs)"
  shows "P (attemptRequest opts env st ex a evs)"
proof (cases "a + 1 > MAX_PROXY_RETRIES")
  case True
  with assms(1) show ?thesis
    by (simp add: attemptRequest.simps [of opts env st ex a])
next
  case False
  obtain x st1 where sel: "selectRandomProxy (env (a + 1)) ex st = (x, st1)"
    by (cases "selectRandomProxy (env (a + 1)) ex st")
  show ?thesis
  proof (cases x)
    case None
    with False sel assms(2) [of st1] show ?thesis
      by (simp add: attemptRequest.simps [of opts env st ex a])
  next
    case (Some p)
    with False sel assms(3) [of p st1] show ?thesis
      by (simp add: attemptRequest.simps [of opts env st ex a])
  qed
qed

text \<open>The trace entry of a request through a proxy.\<close>

lemma proxy_dispatch_Nil:
  "proxy_dispatch opts env p re st ex a [] =
     (Pending, st,
      [\<lparr>d_site = (if re then GetReissue a p else ProxyAttempt a p),
        d_request = (if re then get_request opts p else proxy_request opts p),
        d_before = st, d_after = st\<rparr>])"
  by (simp add: proxy_dispatch.simps)

lemma proxy_dispatch_Cons:
  assumes "proxy_callback opts p re ev (state_at_answer ev st) = (todo, st1)"
    and "this = \<lparr>d_site = (if re then GetReissue a p else ProxyAttempt a p),
                  d_request = (if re then get_request opts p else proxy_request opts p),
                  d_before = state_at_answer ev st, d_after = st1\<rparr>"
  shows "proxy_dispatch opts env p re st ex a (ev # evs) =
     (case todo of
        Resolve r \<Rightarrow> (Resolved r, st1, [this])
      | DirectAfterDisable \<Rightarrow>
          sent this (direct_dispatch DirectAutoDisabled opts (direct_auto_disabled evs) st1 evs)
      | ReissueGet \<Rightarrow> sent this (proxy_dispatch opts env p True st1 ex a evs)
      | RetryLater \<Rightarrow>
          sent this (attemptRequest opts env (during_wait ev st1) (ex @ [proxy p]) a evs)
      | Uncaught \<Rightarrow> (Pending, st1, [this]))"
proof -
  have "fst (proxy_callback opts p re ev (state_at_answer ev st)) = todo"
    "snd (proxy_callback opts p re ev (state_at_answer ev st)) = st1"
    using assms(1) by simp_all
  then show ?thesis
    unfolding assms(2) proxy_dispatch.simps Let_def by (simp only:)
qed

lemma trace_not_Nil [simp]:
  "snd (snd (attemptRequest opts env st ex a evs)) \<noteq> []"
  "snd (snd (proxy_dispatch opts env p re st ex a evs)) \<noteq> []"
proof -
  show d: "snd (snd (proxy_dispatch opts env p re st ex a evs)) \<noteq> []" for p re st ex a
    by (cases evs; simp add: proxy_dispatch.simps Let_def split: action.splits)
  show "snd (snd (attemptRequest opts env st ex a evs)) \<noteq> []"
    by (rule attemptRequest_cases) (simp_all add: d)
qed

lemma first_site_dispatch [simp]:
  "d_site (hd (snd (snd (proxy_dispatch opts env p re st ex a evs)))) =
     (if re then GetReissue a p else ProxyAttempt a p)"
  "d_request (hd (snd (snd (proxy_dispatch opts env p re st ex a evs)))) =
     (if re then get_request opts p else proxy_request opts p)"
  by (cases evs; simp add: proxy_dispatch.simps Let_def split: action.splits)+

lemma first_site_attempt [simp]:
  "starts_attempt (Suc a) (d_site (hd (snd (snd (attemptRequest opts env st ex a evs)))))"
  by (rule attemptRequest_cases) simp_all

text \<open>The callbacks.\<close>

lemma callback_count:
  assumes "proxy_callback opts p re ev st = (todo, st1)"
  shows "(\<exists>r. todo = Resolve r) \<or> http405Count st \<le> http405Count st1"
  using assms
  by (auto simp: proxy_callback_def onload_def onerror_def ontimeout_def Let_def
      split: xhr_outcome.splits if_splits)

lemma callback_ReissueGet:
  assumes "proxy_callback opts p re ev st = (ReissueGet, st1)"
  shows "(\<exists>r. outcome ev = Load r \<and> status r = 405)"
    and "http405Count st1 = http405Count st + 1"
    and "http405Count st1 < MAX_405_ERRORS"
    and "http_method opts = Some ''POST''"
  using assms
  by (auto simp: proxy_callback_def onload_def onerror_def ontimeout_def Let_def
      split: xhr_outcome.splits if_splits)

subsection \<open>The error after exhaustion\<close>

lemma exhausted_inv_direct:
  "(s = DirectExhausted \<Longrightarrow> res = direct_exhausted evs \<and> n = 0)
     \<Longrightarrow> exhausted_inv opts n evs (direct_dispatch s opts res st evs)"
  by (simp add: exhausted_inv_def) (simp add: direct_dispatch_def Let_def)

lemma exhausted_inv_single:
  "d_site d \<noteq> DirectExhausted \<Longrightarrow> exhausted_inv opts n evs (res, st, [d])"
  by (simp add: exhausted_inv_def)

lemma exhausted_inv_sent:
  assumes "exhausted_inv opts n evs r"
    and "m = (if is_attempt (d_site d) then Suc n else n)"
    and "snd (snd r) \<noteq> []"
  shows "exhausted_inv opts m (ev # evs) (sent d r)"
proof (cases "snd (snd r)")
  case Nil
  with assms show ?thesis
    by simp
next
  case (Cons d' tr')
  with assms show ?thesis
    by (simp add: exhausted_inv_def)
qed

lemma exhausted_inv_runs:
  "(\<forall>st ex a. exhausted_inv opts (MAX_PROXY_RETRIES - a) evs (attemptRequest opts env st ex a evs))
   \<and> (\<forall>p re st ex a. exhausted_inv opts (MAX_PROXY_RETRIES - a + (if re then 0 else 1)) evs
          (proxy_dispatch opts env p re st ex a evs))"
proof (induction evs)
  case Nil
  have d: "exhausted_inv opts n [] (proxy_dispatch opts env p re st ex a [])" for n p re st ex a
    by (simp add: proxy_dispatch_Nil exhausted_inv_single)
  have "exhausted_inv opts (MAX_PROXY_RETRIES - a) [] (attemptRequest opts env st ex a [])" for st ex a
    by (rule attemptRequest_cases) (auto intro!: exhausted_inv_direct simp: d)
  with d show ?case by blast
next
  case (Cons ev evs)
  have d: "exhausted_inv opts (MAX_PROXY_RETRIES - a + (if re then 0 else 1)) (ev # evs)
      (proxy_dispatch opts env p re st ex a (ev # evs))" for p re st ex a
  proof -
    obtain todo st1 where cb: "proxy_callback opts p re ev (state_at_answer ev st) = (todo, st1)"
      by (cases "proxy_callback opts p re ev (state_at_answer ev st)")
    have r: "exhausted_inv opts (MAX_PROXY_RETRIES - a) evs
        (proxy_dispatch opts env p True st1 ex a evs)"
      using Cons [THEN conjunct2, rule_format, of a True p st1 ex] by simp
    show ?thesis
      unfolding proxy_dispatch_Cons [OF cb refl]
      by (cases todo)
        (auto intro!: exhausted_inv_single exhausted_inv_sent [where n = "MAX_PROXY_RETRIES - a"]
          exhausted_inv_direct r simp: Cons)
  qed
  have "exhausted_inv opts (MAX_PROXY_RETRIES - a) (ev # evs) (attemptRequest opts env st ex a (ev # evs))"
    for st ex a
  proof (rule attemptRequest_cases)
    fix p st1
    assume "\<not> a + 1 > MAX_PROXY_RETRIES"
    then have "MAX_PROXY_RETRIES - (a + 1) + (if False then 0 else 1) = MAX_PROXY_RETRIES - a"
      by simp
    with d [of "a + 1" False p st1 ex]
    show "exhausted_inv opts (MAX_PROXY_RETRIES - a) (ev # evs)
        (proxy_dispatch opts env p False st1 ex (a + 1) (ev # evs))"
      by simp
  qed (auto intro!: exhausted_inv_direct)
  with d show ?case by blast
qed

lemma direct_exhausted_rejects:
  "direct_exhausted evs = Rejected x \<longleftrightarrow>
     x = NewError ''All proxy attempts and direct request failed''
     \<and> evs \<noteq> [] \<and> (outcome (hd evs) = Timeout \<or> (\<exists>e. outcome (hd evs) = NetError e))"
  by (auto simp: direct_exhausted_def split: list.splits xhr_outcome.splits)

lemma hd_drop_nth: "n < length xs \<Longrightarrow> hd (drop n xs) = xs ! n"
  by (simp add: hd_drop_conv_nth)

text \<open>
  Claim C9, amended. A call with the proxy layer enabled that ends with the direct
  request after the exhausted attempts has sent \<open>MAX_PROXY_RETRIES\<close> requests of attempts
  before. Its promise is rejected if and only if that direct request is answered by an
  error of the network or by a timeout, and the error it is rejected with is then always
  a new \<open>Error\<close> with the message \<open>All proxy attempts and direct request failed\<close>: it
  contains neither the last proxy error nor the error of the direct request.
\<close>

theorem exhaustion_error:
  assumes "makeProxyRequest opts env st evs = (res, st', tr)"
    and "d_site (last tr) = DirectExhausted"
  shows "(res = Rejected x \<longleftrightarrow>
            x = NewError ''All proxy attempts and direct request failed''
            \<and> length tr \<le> length evs
            \<and> (outcome (evs ! (length tr - 1)) = Timeout
                \<or> (\<exists>e. outcome (evs ! (length tr - 1)) = NetError e)))
       \<and> length (filter (\<lambda>d. is_attempt (d_site d)) tr) = MAX_PROXY_RETRIES
       \<and> d_request (last tr) = direct_request opts"
proof (cases "isProxyEnabled st")
  case True
  with assms(1) have run: "attemptRequest opts env st [] 0 evs = (res, st', tr)"
    by (simp add: makeProxyRequest_def)
  have "exhausted_inv opts (MAX_PROXY_RETRIES - 0) evs (attemptRequest opts env st [] 0 evs)"
    using exhausted_inv_runs [of opts evs env] by blast
  with assms(2) have res: "res = direct_exhausted (drop (length tr - 1) evs)"
    and n: "length (filter (\<lambda>d. is_attempt (d_site d)) tr) = MAX_PROXY_RETRIES"
    and q: "d_request (last tr) = direct_request opts"
    by (simp_all add: exhausted_inv_def run)
  have ne: "tr \<noteq> []"
    using trace_not_Nil(1) [of opts env st "[]" 0 evs] by (simp add: run)
  have "drop (length tr - 1) evs \<noteq> [] \<longleftrightarrow> length tr \<le> length evs"
    using ne by (cases tr) auto
  moreover have "length tr \<le> length evs \<Longrightarrow> hd (drop (length tr - 1) evs) = evs ! (length tr - 1)"
    using ne by (intro hd_drop_nth) (cases tr, auto)
  ultimately have one: "res = Rejected x \<longleftrightarrow>
            x = NewError ''All proxy attempts and direct request failed''
            \<and> length tr \<le> length evs
            \<and> (outcome (evs ! (length tr - 1)) = Timeout
                \<or> (\<exists>e. outcome (evs ! (length tr - 1)) = NetError e))"
    unfolding res direct_exhausted_rejects by auto
  from one n q show ?thesis by blast
next
  case False
  with assms show ?thesis
    by (auto simp: makeProxyRequest_def direct_dispatch_def Let_def)
qed

subsection \<open>The callbacks of a run\<close>

lemma step_inv_Nil [simp]: "step_inv opts [] r"
  by (simp add: step_inv_def)

lemma step_inv_direct:
  "is_direct_site s \<Longrightarrow> step_inv opts evs (direct_dispatch s opts res st evs)"
  by (cases s) (simp_all add: step_inv_def direct_dispatch_def Let_def step_ok_def)

lemma step_inv_single:
  "step_ok opts ev d res st' [] \<Longrightarrow> step_inv opts (ev # evs) (res, st', [d])"
  by (simp add: step_inv_def)

lemma step_inv_sent:
  assumes "step_inv opts evs r"
    and "step_ok opts ev d (fst r) (fst (snd r)) (snd (snd r))"
  shows "step_inv opts (ev # evs) (sent d r)"
  unfolding step_inv_def
proof (intro allI impI)
  fix i
  assume h: "i < length (snd (snd (sent d r))) \<and> i < length (ev # evs)"
  show "step_ok opts ((ev # evs) ! i) (snd (snd (sent d r)) ! i) (fst (sent d r))
      (fst (snd (sent d r))) (drop (Suc i) (snd (snd (sent d r))))"
  proof (cases i)
    case 0
    with assms(2) show ?thesis by simp
  next
    case (Suc j)
    with h assms(1) show ?thesis by (simp add: step_inv_def)
  qed
qed

lemma step_inv_dispatch:
  assumes A: "\<And>st ex a. step_inv opts evs (attemptRequest opts env st ex a evs)"
    and D: "\<And>p re st ex a. step_inv opts evs (proxy_dispatch opts env p re st ex a evs)"
  shows "step_inv opts (ev # evs) (proxy_dispatch opts env p re st ex a (ev # evs))"
proof -
  obtain todo st1 where cb: "proxy_callback opts p re ev (state_at_answer ev st) = (todo, st1)"
    by (cases "proxy_callback opts p re ev (state_at_answer ev st)")
  define this where "this =
     \<lparr>d_site = (if re then GetReissue a p else ProxyAttempt a p),
       d_request = (if re then get_request opts p else proxy_request opts p),
       d_before = state_at_answer ev st, d_after = st1\<rparr>"
  have ok: "step_ok opts ev this res st' rest" if "continues a p todo st1 res st' rest"
    for res st' rest
    using that cb by (cases re) (simp_all add: step_ok_def this_def)
  show ?thesis
  proof (cases todo)
    case (Resolve r)
    then show ?thesis
      unfolding proxy_dispatch_Cons [OF cb this_def]
      by (simp add: step_inv_single ok continues_def)
  next
    case DirectAfterDisable
    then show ?thesis
      unfolding proxy_dispatch_Cons [OF cb this_def]
      by (simp add: step_inv_sent step_inv_direct ok continues_def)
  next
    case ReissueGet
    then show ?thesis
      unfolding proxy_dispatch_Cons [OF cb this_def]
      by (simp add: step_inv_sent D ok continues_def)
  next
    case RetryLater
    then show ?thesis
      unfolding proxy_dispatch_Cons [OF cb this_def]
      by (simp add: step_inv_sent A ok continues_def)
  next
    case Uncaught
    then show ?thesis
      unfolding proxy_dispatch_Cons [OF cb this_def]
      by (simp add: step_inv_single ok continues_def)
  qed
qed

lemma step_inv_attempt:
  assumes "\<And>p st ex a. step_inv opts evs (proxy_dispatch opts env p False st ex a evs)"
  shows "step_inv opts evs (attemptRequest opts env st ex a evs)"
  by (rule attemptRequest_cases) (simp_all add: step_inv_direct assms)

lemma step_inv_runs:
  "(\<forall>st ex a. step_inv opts evs (attemptRequest opts env st ex a evs))
   \<and> (\<forall>p re st ex a. step_inv opts evs (proxy_dispatch opts env p re st ex a evs))"
proof (induction evs)
  case Nil
  show ?case by simp
next
  case (Cons ev evs)
  then have d: "\<And>p re st ex a.
      step_inv opts (ev # evs) (proxy_dispatch opts env p re st ex a (ev # evs))"
    by (intro step_inv_dispatch) blast+
  with step_inv_attempt [of opts "ev # evs" env] show ?case by blast
qed

lemma step_inv_call: "step_inv opts evs (makeProxyRequest opts env st evs)"
  using step_inv_runs [of opts evs env]
  by (simp add: makeProxyRequest_def step_inv_direct)

lemma step_ok_call:
  assumes "makeProxyRequest opts env st evs = (res, st', tr)"
    and "i < length tr" and "i < length evs"
  shows "step_ok opts (evs ! i) (tr ! i) res st' (drop (Suc i) tr)"
  using step_inv_call [of opts evs env st] assms
  by (simp add: step_inv_def)

lemma drop_Suc_Nil: "i < length tr \<Longrightarrow> drop (Suc i) tr = [] \<longleftrightarrow> Suc i = length tr"
  by auto

lemma hd_drop_Suc: "drop (Suc i) tr \<noteq> [] \<Longrightarrow> hd (drop (Suc i) tr) = tr ! Suc i"
  by (simp add: hd_drop_conv_nth)

lemma length_drop_one: "length (drop (Suc i) tr) = 1 \<longleftrightarrow> Suc (Suc i) = length tr"
  by auto

subsection \<open>The bound on the requests of a call\<close>

lemma bound_inv_direct [simp]:
  "bound_inv opts n re (direct_dispatch DirectExhausted opts res st evs)"
  "bound_inv opts n re (direct_dispatch DirectNoProxy opts res st evs)"
  "bound_inv opts n re (direct_dispatch DirectAutoDisabled opts res st evs)"
  "bound_inv opts n re (direct_dispatch DirectDisabled opts res st evs)"
  by (simp_all add: bound_inv_def)

lemma bound_inv_single:
  "bound_inv opts (Suc n) False (res, st, [\<lparr>d_site = ProxyAttempt a p, d_request = q,
      d_before = st0, d_after = st1\<rparr>])"
  "bound_inv opts n True (res, st, [\<lparr>d_site = GetReissue a p, d_request = q,
      d_before = st0, d_after = st1\<rparr>])"
  by (simp_all add: bound_inv_def)

lemma bound_inv_sent_attempt:
  "snd (snd r) \<noteq> [] \<Longrightarrow> bound_inv opts n False r
     \<Longrightarrow> bound_inv opts (Suc n) False
           (sent \<lparr>d_site = ProxyAttempt a p, d_request = q, d_before = st0, d_after = st1\<rparr> r)"
  by (simp add: bound_inv_def)

lemma bound_inv_sent_reissue:
  "snd (snd r) \<noteq> [] \<Longrightarrow> bound_inv opts n False r
     \<Longrightarrow> bound_inv opts n True
           (sent \<lparr>d_site = GetReissue a p, d_request = q, d_before = st0, d_after = st1\<rparr> r)"
  by (simp add: bound_inv_def)

lemma bound_inv_reissue_post:
  "snd (snd r) \<noteq> [] \<Longrightarrow> http_method opts = Some ''POST'' \<Longrightarrow> bound_inv opts n True r
     \<Longrightarrow> bound_inv opts (Suc n) False
           (sent \<lparr>d_site = ProxyAttempt a p, d_request = q, d_before = st0, d_after = st1\<rparr> r)"
  "snd (snd r) \<noteq> [] \<Longrightarrow> http_method opts = Some ''POST'' \<Longrightarrow> bound_inv opts n True r
     \<Longrightarrow> bound_inv opts n True
           (sent \<lparr>d_site = GetReissue a p, d_request = q, d_before = st0, d_after = st1\<rparr> r)"
  by (simp_all add: bound_inv_def)

lemma bound_inv_attempt:
  assumes "\<And>p st ex a.
     bound_inv opts (Suc (MAX_PROXY_RETRIES - a)) False (proxy_dispatch opts env p False st ex a evs)"
  shows "bound_inv opts (MAX_PROXY_RETRIES - a) False (attemptRequest opts env st ex a evs)"
proof (rule attemptRequest_cases)
  fix p st1
  assume "\<not> a + 1 > MAX_PROXY_RETRIES"
  then have n: "Suc (MAX_PROXY_RETRIES - (a + 1)) = MAX_PROXY_RETRIES - a" by simp
  have "bound_inv opts (Suc (MAX_PROXY_RETRIES - (a + 1))) False
          (proxy_dispatch opts env p False st1 ex (a + 1) evs)"
    by (rule assms)
  then show "bound_inv opts (MAX_PROXY_RETRIES - a) False
          (proxy_dispatch opts env p False st1 ex (a + 1) evs)"
    by (simp only: n)
qed simp_all

lemma bound_inv_runs:
  "(\<forall>st ex a. bound_inv opts (MAX_PROXY_RETRIES - a) False (attemptRequest opts env st ex a evs))
   \<and> (\<forall>p st ex a. bound_inv opts (Suc (MAX_PROXY_RETRIES - a)) False
          (proxy_dispatch opts env p False st ex a evs))
   \<and> (\<forall>p st ex a. bound_inv opts (MAX_PROXY_RETRIES - a) True
          (proxy_dispatch opts env p True st ex a evs))"
proof (induction evs)
  case Nil
  have d: "\<And>p st ex a. bound_inv opts (Suc (MAX_PROXY_RETRIES - a)) False
          (proxy_dispatch opts env p False st ex a [])"
    by (simp add: proxy_dispatch_Nil bound_inv_single)
  have r: "\<And>p st ex a. bound_inv opts (MAX_PROXY_RETRIES - a) True
          (proxy_dispatch opts env p True st ex a [])"
    by (simp add: proxy_dispatch_Nil bound_inv_single)
  from d r bound_inv_attempt [of opts env "[]"] show ?case by blast
next
  case (Cons ev evs)
  have d: "bound_inv opts (Suc (MAX_PROXY_RETRIES - a)) False
          (proxy_dispatch opts env p False st ex a (ev # evs))" for p st ex a
  proof -
    obtain todo st1 where cb: "proxy_callback opts p False ev (state_at_answer ev st) = (todo, st1)"
      by (cases "proxy_callback opts p False ev (state_at_answer ev st)")
    have post: "todo = ReissueGet \<Longrightarrow> http_method opts = Some ''POST''"
      using callback_ReissueGet(4) cb by blast
    show ?thesis
      unfolding proxy_dispatch_Cons [OF cb refl]
      using Cons post
      by (cases todo)
        (simp_all add: bound_inv_single bound_inv_sent_attempt bound_inv_reissue_post)
  qed
  have r: "bound_inv opts (MAX_PROXY_RETRIES - a) True
          (proxy_dispatch opts env p True st ex a (ev # evs))" for p st ex a
  proof -
    obtain todo st1 where cb: "proxy_callback opts p True ev (state_at_answer ev st) = (todo, st1)"
      by (cases "proxy_callback opts p True ev (state_at_answer ev st)")
    have post: "todo = ReissueGet \<Longrightarrow> http_method opts = Some ''POST''"
      using callback_ReissueGet(4) cb by blast
    show ?thesis
      unfolding proxy_dispatch_Cons [OF cb refl]
      using Cons post
      by (cases todo)
        (simp_all add: bound_inv_single bound_inv_sent_reissue bound_inv_reissue_post)
  qed
  from d r bound_inv_attempt [of opts env "ev # evs"] show ?case by blast
qed

text \<open>Where a reissue comes from.\<close>

lemma reissue_inv_short [simp]:
  "length tr = 1 \<Longrightarrow> reissue_inv opts evs tr"
  by (simp add: reissue_inv_def)

lemma reissue_inv_sent:
  assumes "reissue_inv opts evs tr" and "tr \<noteq> []" and "reissue_ok opts ev d (hd tr)"
  shows "reissue_inv opts (ev # evs) (d # tr)"
  unfolding reissue_inv_def
proof (intro allI impI)
  fix i
  assume h: "Suc i < length (d # tr)"
  show "i < length (ev # evs) \<and> reissue_ok opts ((ev # evs) ! i) ((d # tr) ! i) ((d # tr) ! Suc i)"
  proof (cases i)
    case 0
    with assms(2,3) show ?thesis by (simp add: hd_conv_nth)
  next
    case (Suc j)
    with h assms(1) show ?thesis by (simp add: reissue_inv_def)
  qed
qed

lemma reissue_ok_other [simp]:
  "starts_attempt n (d_site d') \<Longrightarrow> reissue_ok opts ev d d'"
  "d_site d' = DirectAutoDisabled \<Longrightarrow> reissue_ok opts ev d d'"
  by (auto simp: reissue_ok_def)

lemma reissue_inv_runs:
  "(\<forall>st ex a. reissue_inv opts evs (snd (snd (attemptRequest opts env st ex a evs))))
   \<and> (\<forall>p re st ex a. reissue_inv opts evs (snd (snd (proxy_dispatch opts env p re st ex a evs))))"
proof (induction evs)
  case Nil
  have d: "reissue_inv opts [] (snd (snd (proxy_dispatch opts env p re st ex a [])))"
    for p re st ex a
    by (simp add: proxy_dispatch_Nil)
  have "reissue_inv opts [] (snd (snd (attemptRequest opts env st ex a [])))" for st ex a
    by (rule attemptRequest_cases) (simp_all add: d)
  with d show ?case by blast
next
  case (Cons ev evs)
  have d: "reissue_inv opts (ev # evs) (snd (snd (proxy_dispatch opts env p re st ex a (ev # evs))))"
    for p re st ex a
  proof -
    obtain todo st1 where cb: "proxy_callback opts p re ev (state_at_answer ev st) = (todo, st1)"
      by (cases "proxy_callback opts p re ev (state_at_answer ev st)")
    show ?thesis
    proof (cases todo)
      case ReissueGet
      note g = callback_ReissueGet [OF cb [unfolded ReissueGet]]
      have "reissue_ok opts ev
          \<lparr>d_site = (if re then GetReissue a p else ProxyAttempt a p),
            d_request = (if re then get_request opts p else proxy_request opts p),
            d_before = state_at_answer ev st, d_after = st1\<rparr>
          (hd (snd (snd (proxy_dispatch opts env p True st1 ex a evs))))"
        using g by (simp add: reissue_ok_def)
      with Cons ReissueGet show ?thesis
        unfolding proxy_dispatch_Cons [OF cb refl]
        by (simp add: reissue_inv_sent)
    next
      case RetryLater
      with Cons show ?thesis
        unfolding proxy_dispatch_Cons [OF cb refl]
        by (simp add: reissue_inv_sent reissue_ok_other(1) [OF first_site_attempt])
    next
      case DirectAfterDisable
      then show ?thesis
        unfolding proxy_dispatch_Cons [OF cb refl]
        by (simp add: reissue_inv_sent)
    qed (simp_all add: proxy_dispatch_Cons [OF cb refl])
  qed
  have "reissue_inv opts (ev # evs) (snd (snd (attemptRequest opts env st ex a (ev # evs))))"
    for st ex a
    by (rule attemptRequest_cases) (simp_all add: d)
  with d show ?case by blast
qed

text \<open>The number of reissues.\<close>

lemma state_at_answer_count:
  "counter_kept (ev # evs) \<Longrightarrow> http405Count st \<le> http405Count (state_at_answer ev st)"
  by (simp add: counter_kept_def state_at_answer_def split: xhr_outcome.splits)

lemma during_wait_count:
  "counter_kept (ev # evs) \<Longrightarrow> http405Count st \<le> http405Count (during_wait ev st)"
  by (simp add: counter_kept_def)

lemma reissue_bound_direct [simp]:
  "reissue_bound c re (direct_dispatch DirectExhausted opts res st evs)"
  "reissue_bound c re (direct_dispatch DirectNoProxy opts res st evs)"
  "reissue_bound c re (direct_dispatch DirectDisabled opts res st evs)"
  by (simp_all add: reissue_bound_def)

lemma reissue_bound_attempt:
  assumes "\<And>p st ex a. reissue_bound (http405Count st) False
      (proxy_dispatch opts env p False st ex a evs)"
  shows "reissue_bound (http405Count st) False (attemptRequest opts env st ex a evs)"
proof (rule attemptRequest_cases)
  fix p st1
  assume "selectRandomProxy (env (a + 1)) ex st = (Some p, st1)"
  from selectRandomProxy_frame(1) [OF this]
    assms [of st1 p ex "a + 1"]
  show "reissue_bound (http405Count st) False (proxy_dispatch opts env p False st1 ex (a + 1) evs)"
    by simp
qed simp_all

lemma reissue_bound_dispatch:
  assumes k: "counter_kept (ev # evs)"
    and A: "\<And>st ex a. reissue_bound (http405Count st) False (attemptRequest opts env st ex a evs)"
    and D: "\<And>p re st ex a. reissue_bound (http405Count st) re
        (proxy_dispatch opts env p re st ex a evs)"
  shows "reissue_bound (http405Count st) re (proxy_dispatch opts env p re st ex a (ev # evs))"
proof -
  obtain todo st1 where cb: "proxy_callback opts p re ev (state_at_answer ev st) = (todo, st1)"
    by (cases "proxy_callback opts p re ev (state_at_answer ev st)")
  note c0 = state_at_answer_count [OF k, of st]
  show ?thesis
  proof (cases todo)
    case ReissueGet
    note g = callback_ReissueGet [OF cb [unfolded ReissueGet]]
    from D [of st1 True p ex a] g(2,3) c0 ReissueGet show ?thesis
      unfolding proxy_dispatch_Cons [OF cb refl]
      by (cases re; simp add: reissue_bound_def)
  next
    case RetryLater
    from callback_count [OF cb] RetryLater
    have "http405Count (state_at_answer ev st) \<le> http405Count st1" by simp
    with A [of "during_wait ev st1" "ex @ [proxy p]" a] during_wait_count [OF k, of st1] c0
      RetryLater
    show ?thesis
      unfolding proxy_dispatch_Cons [OF cb refl]
      by (cases re; simp add: reissue_bound_def)
  qed (simp_all add: proxy_dispatch_Cons [OF cb refl] reissue_bound_def)
qed

lemma counter_kept_Cons: "counter_kept (ev # evs) \<Longrightarrow> counter_kept evs"
  by (simp add: counter_kept_def)

lemma reissue_bound_runs:
  "counter_kept evs \<Longrightarrow>
   (\<forall>st ex a. reissue_bound (http405Count st) False (attemptRequest opts env st ex a evs))
   \<and> (\<forall>p re st ex a. reissue_bound (http405Count st) re
          (proxy_dispatch opts env p re st ex a evs))"
proof (induction evs)
  case Nil
  have d: "\<And>p re st ex a. reissue_bound (http405Count st) re
      (proxy_dispatch opts env p re st ex a [])"
    by (simp add: proxy_dispatch_Nil reissue_bound_def)
  with reissue_bound_attempt [of opts env "[]"] show ?case by blast
next
  case (Cons ev evs)
  from Cons.IH [OF counter_kept_Cons [OF Cons.prems]]
  have d: "\<And>p re st ex a. reissue_bound (http405Count st) re
      (proxy_dispatch opts env p re st ex a (ev # evs))"
    by (intro reissue_bound_dispatch [OF Cons.prems]) blast+
  with reissue_bound_attempt [of opts env "ev # evs"] show ?case by blast
qed

lemma filter_proxied_length:
  "length (filter (\<lambda>d. is_proxied (d_site d)) tr) =
     length (filter (\<lambda>d. is_attempt (d_site d)) tr)
     + length (filter (\<lambda>d. is_reissue (d_site d)) tr)"
  by (induction tr) (auto simp: is_proxied_def is_attempt_def is_reissue_def split: site.splits)

lemma onload_reissue:
  assumes "status r = 405" and "http405Count st + 1 < MAX_405_ERRORS"
    and "http_method opts = Some ''POST''"
  shows "fst (onload opts p rt t r st) = ReissueGet"
  using assms by (simp add: onload_def Let_def)

text \<open>
  Claim C2, amended. A call of \<open>makeProxyRequest\<close> runs at most \<open>MAX_PROXY_RETRIES = 3\<close>
  attempts, each with one request through the selected endpoint, and sends at most one
  direct request, which is then its last request. If the method is not \<open>POST\<close>, no other
  request goes through a proxy. If it is \<open>POST\<close>, there are also the \<open>GET\<close> reissues,
  which are no attempts of their own: each of them comes directly after a request through
  the same endpoint in the same attempt whose answer had the status 405 and brought the
  counter to a value below \<open>MAX_405_ERRORS\<close>, and each such answer is followed by a
  reissue. So, unless other calls lower the counter in
  between, a call that starts with the counter at \<open>c\<close> makes at most
  \<open>MAX_405_ERRORS - 1 - c\<close> reissues and at most \<open>3 + (MAX_405_ERRORS - 1 - c)\<close>, that is
  at most 7, requests through a proxy.
\<close>

theorem retry_bound:
  assumes "makeProxyRequest opts env st evs = (res, st', tr)"
  shows "length (filter (\<lambda>d. is_attempt (d_site d)) tr) \<le> MAX_PROXY_RETRIES
       \<and> length (filter (\<lambda>d. is_direct_site (d_site d)) tr) \<le> 1
       \<and> filter (\<lambda>d. is_direct_site (d_site d)) (butlast tr) = []
       \<and> (http_method opts \<noteq> Some ''POST'' \<longrightarrow> filter (\<lambda>d. is_reissue (d_site d)) tr = [])
       \<and> \<not> is_reissue (d_site (hd tr))
       \<and> (\<forall>i a p. Suc i < length tr \<and> d_site (tr ! Suc i) = GetReissue a p \<longrightarrow>
            i < length evs
            \<and> (d_site (tr ! i) = ProxyAttempt a p \<or> d_site (tr ! i) = GetReissue a p)
            \<and> (\<exists>r. outcome (evs ! i) = Load r \<and> status r = 405)
            \<and> http405Count (d_after (tr ! i)) = http405Count (d_before (tr ! i)) + 1
            \<and> http405Count (d_after (tr ! i)) < MAX_405_ERRORS
            \<and> http_method opts = Some ''POST''
            \<and> d_request (tr ! Suc i) = get_request opts p)
       \<and> (\<forall>i a p r. i < length tr \<and> i < length evs
              \<and> (d_site (tr ! i) = ProxyAttempt a p \<or> d_site (tr ! i) = GetReissue a p)
              \<and> outcome (evs ! i) = Load r \<and> status r = 405
              \<and> http405Count (d_before (tr ! i)) + 1 < MAX_405_ERRORS
              \<and> http_method opts = Some ''POST'' \<longrightarrow>
            Suc i < length tr \<and> d_site (tr ! Suc i) = GetReissue a p)
       \<and> (counter_kept evs \<longrightarrow>
            length (filter (\<lambda>d. is_reissue (d_site d)) tr)
              \<le> MAX_405_ERRORS - 1 - http405Count st
            \<and> length (filter (\<lambda>d. is_proxied (d_site d)) tr)
              \<le> MAX_PROXY_RETRIES + (MAX_405_ERRORS - 1 - http405Count st))"
proof -
  have fwd: "\<forall>i a p r. i < length tr \<and> i < length evs
              \<and> (d_site (tr ! i) = ProxyAttempt a p \<or> d_site (tr ! i) = GetReissue a p)
              \<and> outcome (evs ! i) = Load r \<and> status r = 405
              \<and> http405Count (d_before (tr ! i)) + 1 < MAX_405_ERRORS
              \<and> http_method opts = Some ''POST'' \<longrightarrow>
            Suc i < length tr \<and> d_site (tr ! Suc i) = GetReissue a p"
  proof (intro allI impI)
    fix i a p r
    assume h: "i < length tr \<and> i < length evs
              \<and> (d_site (tr ! i) = ProxyAttempt a p \<or> d_site (tr ! i) = GetReissue a p)
              \<and> outcome (evs ! i) = Load r \<and> status r = 405
              \<and> http405Count (d_before (tr ! i)) + 1 < MAX_405_ERRORS
              \<and> http_method opts = Some ''POST''"
    then have t: "fst (proxy_callback opts p re (evs ! i) (d_before (tr ! i))) = ReissueGet"
      for re
      by (simp add: proxy_callback_def onload_reissue)
    from h step_ok_call [OF assms, of i]
    have "drop (Suc i) tr \<noteq> [] \<and> d_site (hd (drop (Suc i) tr)) = GetReissue a p"
      by (auto simp: step_ok_def t continues_def)
    then show "Suc i < length tr \<and> d_site (tr ! Suc i) = GetReissue a p"
      by (auto simp: hd_drop_conv_nth)
  qed
  show ?thesis
proof (cases "isProxyEnabled st")
  case True
  with assms have run: "attemptRequest opts env st [] 0 evs = (res, st', tr)"
    by (simp add: makeProxyRequest_def)
  have "bound_inv opts (MAX_PROXY_RETRIES - 0) False (attemptRequest opts env st [] 0 evs)"
    using bound_inv_runs [of opts env evs] by blast
  then have b: "length (filter (\<lambda>d. is_attempt (d_site d)) tr) \<le> MAX_PROXY_RETRIES"
    "length (filter (\<lambda>d. is_direct_site (d_site d)) tr) \<le> 1"
    "filter (\<lambda>d. is_direct_site (d_site d)) (butlast tr) = []"
    "http_method opts \<noteq> Some ''POST'' \<longrightarrow> filter (\<lambda>d. is_reissue (d_site d)) tr = []"
    by (simp_all add: bound_inv_def run)
  have "starts_attempt (Suc 0) (d_site (hd (snd (snd (attemptRequest opts env st [] 0 evs)))))"
    by (rule first_site_attempt)
  then have h: "\<not> is_reissue (d_site (hd tr))"
    by (auto simp: run starts_attempt_def)
  have "reissue_inv opts evs (snd (snd (attemptRequest opts env st [] 0 evs)))"
    using reissue_inv_runs [of opts evs env] by blast
  then have "reissue_inv opts evs tr"
    by (simp only: run snd_conv)
  then have r: "\<forall>i a p. Suc i < length tr \<and> d_site (tr ! Suc i) = GetReissue a p \<longrightarrow>
            i < length evs
            \<and> (d_site (tr ! i) = ProxyAttempt a p \<or> d_site (tr ! i) = GetReissue a p)
            \<and> (\<exists>r. outcome (evs ! i) = Load r \<and> status r = 405)
            \<and> http405Count (d_after (tr ! i)) = http405Count (d_before (tr ! i)) + 1
            \<and> http405Count (d_after (tr ! i)) < MAX_405_ERRORS
            \<and> http_method opts = Some ''POST''
            \<and> d_request (tr ! Suc i) = get_request opts p"
    unfolding reissue_inv_def reissue_ok_def by blast
  have k: "length (filter (\<lambda>d. is_reissue (d_site d)) tr) \<le> MAX_405_ERRORS - 1 - http405Count st"
    if "counter_kept evs"
  proof -
    from reissue_bound_runs [OF that, of opts env]
    have "reissue_bound (http405Count st) False (attemptRequest opts env st [] 0 evs)"
      by blast
    then show ?thesis
      by (simp add: reissue_bound_def run)
  qed
  have px: "counter_kept evs \<longrightarrow>
            length (filter (\<lambda>d. is_reissue (d_site d)) tr)
              \<le> MAX_405_ERRORS - 1 - http405Count st
            \<and> length (filter (\<lambda>d. is_proxied (d_site d)) tr)
              \<le> MAX_PROXY_RETRIES + (MAX_405_ERRORS - 1 - http405Count st)"
    using b(1) k by (auto simp: filter_proxied_length)
  show ?thesis
    by (intro conjI) (rule b h r px fwd)+
next
  case False
  with assms have tr: "tr = snd (snd (direct_dispatch DirectDisabled opts (direct_disabled evs) st evs))"
    by (simp add: makeProxyRequest_def)
  have rest: "length (filter (\<lambda>d. is_attempt (d_site d)) tr) \<le> MAX_PROXY_RETRIES
       \<and> length (filter (\<lambda>d. is_direct_site (d_site d)) tr) \<le> 1
       \<and> filter (\<lambda>d. is_direct_site (d_site d)) (butlast tr) = []
       \<and> (http_method opts \<noteq> Some ''POST'' \<longrightarrow> filter (\<lambda>d. is_reissue (d_site d)) tr = [])
       \<and> \<not> is_reissue (d_site (hd tr))
       \<and> (\<forall>i a p. Suc i < length tr \<and> d_site (tr ! Suc i) = GetReissue a p \<longrightarrow>
            i < length evs
            \<and> (d_site (tr ! i) = ProxyAttempt a p \<or> d_site (tr ! i) = GetReissue a p)
            \<and> (\<exists>r. outcome (evs ! i) = Load r \<and> status r = 405)
            \<and> http405Count (d_after (tr ! i)) = http405Count (d_before (tr ! i)) + 1
            \<and> http405Count (d_after (tr ! i)) < MAX_405_ERRORS
            \<and> http_method opts = Some ''POST''
            \<and> d_request (tr ! Suc i) = get_request opts p)"
    unfolding tr by simp
  have px: "counter_kept evs \<longrightarrow>
            length (filter (\<lambda>d. is_reissue (d_site d)) tr)
              \<le> MAX_405_ERRORS - 1 - http405Count st
            \<and> length (filter (\<lambda>d. is_proxied (d_site d)) tr)
              \<le> MAX_PROXY_RETRIES + (MAX_405_ERRORS - 1 - http405Count st)"
    unfolding tr by (simp add: filter_proxied_length)
  from rest fwd px show ?thesis
    by (intro conjI) blast+
qed
qed

subsection \<open>An answer with status 200\<close>

lemma onload_200:
  "status r = 200 \<Longrightarrow>
   onload opts p rt t r st =
     (Resolve r, updateProxyStats t (proxy p) True rt False (st\<lparr>http405Count := 0\<rparr>))"
  by (simp add: onload_def)

lemma onload_other:
  "status r \<noteq> 200 \<Longrightarrow> status r \<noteq> 405 \<Longrightarrow>
   onload opts p rt t r st = (RetryLater, updateProxyStats t (proxy p) False rt False st)"
  by (simp add: onload_def)

lemma proxyStats_recorded:
  "proxyStats (updateProxyStats t k s rt b st) k =
     Some (update_stats t s rt b (stats_or_new st k))"
  by (simp add: updateProxyStats_def saveProxyStats_def stats_or_new_def Let_def)

lemma stats_or_new_count [simp]:
  "stats_or_new (st\<lparr>http405Count := n\<rparr>) k = stats_or_new st k"
  by (simp add: stats_or_new_def)

text \<open>
  Claim C1, amended. If a request sent through a proxy is answered with status 200 (not:
  any 2xx status), then its callback sets \<open>http405Count\<close> to 0 and records, in the state
  it finds, a success with the measured time under the key of the endpoint that was
  selected for the request; the promise is resolved with this response and the call sends
  no further request. If the status is neither 200 nor 405, as for every other 2xx status,
  the callback records a failure under that key, leaves the counter as it is, and the call
  goes on with the next attempt.
\<close>

theorem proxied_200_succeeds:
  assumes "makeProxyRequest opts env st evs = (res, st', tr)"
    and "i < length tr" and "i < length evs"
    and "d_site (tr ! i) = ProxyAttempt a p \<or> d_site (tr ! i) = GetReissue a p"
    and "outcome (evs ! i) = Load resp"
  shows "(status resp = 200 \<longrightarrow>
            res = Resolved resp \<and> Suc i = length tr \<and> st' = d_after (tr ! i)
            \<and> d_after (tr ! i) =
                updateProxyStats (clock (evs ! i)) (proxy p) True (elapsed (evs ! i)) False
                  ((d_before (tr ! i))\<lparr>http405Count := 0\<rparr>)
            \<and> http405Count st' = 0
            \<and> proxyStats st' (proxy p) =
                Some (update_stats (clock (evs ! i)) True (elapsed (evs ! i)) False
                        (stats_or_new (d_before (tr ! i)) (proxy p))))
       \<and> (status resp \<noteq> 200 \<and> status resp \<noteq> 405 \<longrightarrow>
            d_after (tr ! i) =
              updateProxyStats (clock (evs ! i)) (proxy p) False (elapsed (evs ! i)) False
                (d_before (tr ! i))
            \<and> http405Count (d_after (tr ! i)) = http405Count (d_before (tr ! i))
            \<and> proxyStats (d_after (tr ! i)) (proxy p) =
                Some (update_stats (clock (evs ! i)) False (elapsed (evs ! i)) False
                        (stats_or_new (d_before (tr ! i)) (proxy p)))
            \<and> Suc i < length tr \<and> starts_attempt (Suc a) (d_site (tr ! Suc i)))
       \<and> r_proxy (d_request (tr ! i)) = Some (proxy_url (getProxyConfig p))"
proof -
  let ?B = "d_before (tr ! i)"
  let ?ev = "evs ! i"
  obtain re where re: "d_site (tr ! i) = (if re then GetReissue a p else ProxyAttempt a p)"
    using assms(4) by (metis (full_types))
  have cbl: "proxy_callback opts p re ?ev ?B = onload opts p (elapsed ?ev) (clock ?ev) resp ?B"
    by (simp add: proxy_callback_def assms(5))
  from step_ok_call [OF assms(1-3)] re
  have req: "d_request (tr ! i) = (if re then get_request opts p else proxy_request opts p)"
    and aft: "d_after (tr ! i) = snd (proxy_callback opts p re ?ev ?B)"
    and con: "continues a p (fst (proxy_callback opts p re ?ev ?B)) (d_after (tr ! i)) res st'
               (drop (Suc i) tr)"
    by (cases re; simp add: step_ok_def)+
  have one: "res = Resolved resp \<and> Suc i = length tr \<and> st' = d_after (tr ! i)
            \<and> d_after (tr ! i) =
                updateProxyStats (clock ?ev) (proxy p) True (elapsed ?ev) False
                  (?B\<lparr>http405Count := 0\<rparr>)
            \<and> http405Count st' = 0
            \<and> proxyStats st' (proxy p) =
                Some (update_stats (clock ?ev) True (elapsed ?ev) False
                        (stats_or_new ?B (proxy p)))"
    if "status resp = 200"
    using con aft assms(2) unfolding cbl onload_200 [OF that]
    by (simp add: continues_def drop_Suc_Nil proxyStats_recorded)
  have two: "d_after (tr ! i) =
              updateProxyStats (clock ?ev) (proxy p) False (elapsed ?ev) False ?B
            \<and> http405Count (d_after (tr ! i)) = http405Count ?B
            \<and> proxyStats (d_after (tr ! i)) (proxy p) =
                Some (update_stats (clock ?ev) False (elapsed ?ev) False
                        (stats_or_new ?B (proxy p)))
            \<and> Suc i < length tr \<and> starts_attempt (Suc a) (d_site (tr ! Suc i))"
    if "status resp \<noteq> 200 \<and> status resp \<noteq> 405"
  proof -
    from that have o: "onload opts p (elapsed ?ev) (clock ?ev) resp ?B =
        (RetryLater, updateProxyStats (clock ?ev) (proxy p) False (elapsed ?ev) False ?B)"
      by (simp add: onload_other)
    from con have ne: "drop (Suc i) tr \<noteq> []"
      and sa: "starts_attempt (Suc a) (d_site (hd (drop (Suc i) tr)))"
      unfolding cbl o by (simp_all add: continues_def)
    from ne have "Suc i < length tr" by simp
    with sa aft show ?thesis
      unfolding cbl o by (simp add: hd_drop_conv_nth proxyStats_recorded)
  qed
  have three: "r_proxy (d_request (tr ! i)) = Some (proxy_url (getProxyConfig p))"
    unfolding req by (simp add: get_request_def proxy_request_def)
  from one two three show ?thesis by blast
qed

subsection \<open>The circuit breaker\<close>

lemma ls_get_throws_fires [simp]:
  "ls_get_throws (proxyStatsTimeout_fires st) = ls_get_throws st"
  by (simp add: proxyStatsTimeout_fires_def Let_def)

lemma streak_append: "streak c (S @ T) = streak (streak c S) T"
  by (induction S arbitrary: c) simp_all

lemma tripped_append: "tripped c (S @ T) \<longleftrightarrow> tripped c S \<or> tripped (streak c S) T"
  by (induction S arbitrary: c) auto

lemma streak_no_200:
  "200 \<notin> set S \<Longrightarrow> streak c S = c + count_list S 405"
  by (induction S arbitrary: c) auto

lemma tripped_no_200:
  "200 \<notin> set S \<Longrightarrow>
   tripped c S \<longleftrightarrow> 405 \<in> set S \<and> MAX_405_ERRORS \<le> c + count_list S 405"
proof (induction S arbitrary: c)
  case Nil
  show ?case by simp
next
  case (Cons s S)
  then have ih: "tripped n S \<longleftrightarrow> 405 \<in> set S \<and> MAX_405_ERRORS \<le> n + count_list S 405" for n
    by simp
  have z: "405 \<notin> set S \<Longrightarrow> count_list S 405 = 0"
    by (simp add: count_list_0_iff)
  from Cons.prems show ?case
    by (cases "405 \<in> set S") (auto simp: ih z)
qed

lemma answer_statuses_Answered:
  "answer_statuses (Answered opts p re ev # steps) = answer_status ev @ answer_statuses steps"
  by (simp add: answer_status_def split: xhr_outcome.splits)

lemma callback_circuit:
  "http405Count (snd (proxy_callback opts p re ev st)) = streak (http405Count st) (answer_status ev)"
  "ls_set_throws (snd (proxy_callback opts p re ev st)) = ls_set_throws st"
  "ls_get_throws (snd (proxy_callback opts p re ev st)) = ls_get_throws st"
  "\<not> ls_set_throws st \<Longrightarrow>
     ls_proxy_enabled (snd (proxy_callback opts p re ev st)) =
       (if tripped (http405Count st) (answer_status ev) then Some ''false''
        else ls_proxy_enabled st)"
  by (simp_all add: proxy_callback_def onload_def onerror_def ontimeout_def answer_status_def
      setProxyEnabled_def Let_def split: xhr_outcome.splits)

lemma module_steps_frame [simp]:
  "ls_set_throws (module_steps steps st) = ls_set_throws st"
  "ls_get_throws (module_steps steps st) = ls_get_throws st"
  by (induction steps st rule: module_steps.induct)
     (simp_all add: callback_circuit snd_selectRandomProxy)

lemma module_steps_count:
  "http405Count (module_steps steps st) = streak (http405Count st) (answer_statuses steps)"
proof (induction steps st rule: module_steps.induct)
  case (2 opts p reissue ev steps st)
  then show ?case
    by (simp only: module_steps.simps answer_statuses_Answered streak_append callback_circuit)
qed (simp_all add: snd_selectRandomProxy)

lemma module_steps_flag:
  "\<not> ls_set_throws st \<Longrightarrow>
   ls_proxy_enabled (module_steps steps st) =
     (if tripped (http405Count st) (answer_statuses steps) then Some ''false''
      else ls_proxy_enabled st)"
proof (induction steps st rule: module_steps.induct)
  case (2 opts p reissue ev steps st)
  then show ?case
    by (simp add: answer_statuses_Answered tripped_append callback_circuit
        del: answer_statuses.simps)
qed (simp_all add: snd_selectRandomProxy)

lemma module_steps_enabled:
  assumes "\<not> ls_set_throws st"
  shows "isProxyEnabled (module_steps steps st) \<longleftrightarrow>
     isProxyEnabled st \<and> \<not> tripped (http405Count st) (answer_statuses steps)"
  by (simp add: isProxyEnabled_def module_steps_flag [OF assms])

lemma onload_trip:
  assumes "status r = 405" and "MAX_405_ERRORS \<le> http405Count st + 1"
  shows "fst (onload opts p rt t r st) = DirectAfterDisable"
  using assms by (simp add: onload_def Let_def)

text \<open>A call on its own.\<close>

lemma undisturbed_Cons:
  "undisturbed (ev # evs) \<Longrightarrow> undisturbed evs"
  "undisturbed (ev # evs) \<Longrightarrow> state_at_answer ev st = st"
  "undisturbed (ev # evs) \<Longrightarrow> during_wait ev st = st"
  by (simp_all add: undisturbed_def state_at_answer_def split: xhr_outcome.splits)

lemma direct_dispatch_alone:
  "undisturbed evs \<Longrightarrow> fst (snd (direct_dispatch s opts res st evs)) = st"
  by (cases evs) (simp_all add: direct_dispatch_def undisturbed_Cons)

lemma proxied_statuses_direct [simp]:
  "\<not> is_proxied s \<Longrightarrow> proxied_statuses (snd (snd (direct_dispatch s opts res st evs))) evs' = []"
  by (cases evs') (simp_all add: direct_dispatch_def Let_def)

lemma alone_inv_direct:
  "undisturbed evs \<Longrightarrow> \<not> is_proxied s \<Longrightarrow> alone_inv st evs (direct_dispatch s opts res st evs)"
  unfolding alone_inv_def
  by (rule exI [of _ "[]"]) (simp add: direct_dispatch_alone)

lemma alone_inv_step:
  assumes "alone_inv st1 evs r" and "module_steps [step] st = st1"
    and "answer_statuses [step] @ proxied_statuses (snd (snd r)) evs = S"
  shows "\<exists>steps. fst (snd r) = module_steps steps st \<and> answer_statuses steps = S"
proof -
  from assms(1) obtain steps where s: "fst (snd r) = module_steps steps st1"
    "answer_statuses steps = proxied_statuses (snd (snd r)) evs"
    unfolding alone_inv_def by blast
  have "module_steps (step # steps) st = module_steps steps (module_steps [step] st)"
    by (cases step) simp_all
  moreover have "answer_statuses (step # steps) = answer_statuses [step] @ answer_statuses steps"
    by (cases step) (simp_all split: xhr_outcome.splits)
  ultimately show ?thesis
    using s assms(2,3) by (intro exI [of _ "step # steps"]) simp
qed

lemma alone_inv_attempt:
  assumes "undisturbed evs"
    and "\<And>p st ex a. alone_inv st evs (proxy_dispatch opts env p False st ex a evs)"
  shows "alone_inv st evs (attemptRequest opts env st ex a evs)"
proof (rule attemptRequest_cases)
  fix st1
  assume sel: "selectRandomProxy (env (a + 1)) ex st = (None, st1)"
  have "alone_inv st1 evs (direct_dispatch DirectNoProxy opts (direct_no_proxy (a + 1) evs) st1 evs)"
    using assms(1) by (simp add: alone_inv_direct)
  from alone_inv_step [OF this, of "Selected (env (a + 1)) ex" st] sel
  show "alone_inv st evs (direct_dispatch DirectNoProxy opts (direct_no_proxy (a + 1) evs) st1 evs)"
    by (simp add: alone_inv_def)
next
  fix p st1
  assume sel: "selectRandomProxy (env (a + 1)) ex st = (Some p, st1)"
  from alone_inv_step [OF assms(2) [of st1 p ex "a + 1"], of "Selected (env (a + 1)) ex" st] sel
  show "alone_inv st evs (proxy_dispatch opts env p False st1 ex (a + 1) evs)"
    by (simp add: alone_inv_def)
qed (simp add: alone_inv_direct assms(1))

lemma alone_inv_dispatch:
  assumes u: "undisturbed (ev # evs)"
    and A: "\<And>st ex a. alone_inv st evs (attemptRequest opts env st ex a evs)"
    and D: "\<And>p re st ex a. alone_inv st evs (proxy_dispatch opts env p re st ex a evs)"
  shows "alone_inv st (ev # evs) (proxy_dispatch opts env p re st ex a (ev # evs))"
proof -
  note [simp] = undisturbed_Cons(2,3) [OF u]
  obtain todo st1 where cb: "proxy_callback opts p re ev (state_at_answer ev st) = (todo, st1)"
    by (cases "proxy_callback opts p re ev (state_at_answer ev st)")
  then have st1: "module_steps [Answered opts p re ev] st = st1"
    by simp
  have as: "answer_statuses [Answered opts p re ev] = answer_status ev"
    by (simp add: answer_status_def split: xhr_outcome.splits)
  define this where "this =
     \<lparr>d_site = (if re then GetReissue a p else ProxyAttempt a p),
       d_request = (if re then get_request opts p else proxy_request opts p),
       d_before = state_at_answer ev st, d_after = st1\<rparr>"
  have px: "is_proxied (d_site this)" by (simp add: this_def)
  have last: "alone_inv st (ev # evs) (res, st1, [this])" for res
    unfolding alone_inv_def
    using st1 as px by (intro exI [of _ "[Answered opts p re ev]"]) simp
  have more: "alone_inv st (ev # evs) (sent this r)" if "alone_inv st1 evs r" for r
    using alone_inv_step [OF that st1, of "answer_status ev @ proxied_statuses (snd (snd r)) evs"]
      as px
    by (simp add: alone_inv_def)
  show ?thesis
    unfolding proxy_dispatch_Cons [OF cb this_def]
    by (cases todo)
       (simp_all add: last more A D alone_inv_direct undisturbed_Cons(1) [OF u])
qed

lemma alone_inv_runs:
  "undisturbed evs \<Longrightarrow>
   (\<forall>st ex a. alone_inv st evs (attemptRequest opts env st ex a evs))
   \<and> (\<forall>p re st ex a. alone_inv st evs (proxy_dispatch opts env p re st ex a evs))"
proof (induction evs)
  case Nil
  have d: "\<And>p re st ex a. alone_inv st [] (proxy_dispatch opts env p re st ex a [])"
    unfolding alone_inv_def
    by (intro exI [of _ "[]"]) (simp add: proxy_dispatch_Nil)
  with alone_inv_attempt [OF Nil, of opts env] show ?case by blast
next
  case (Cons ev evs)
  from Cons.IH [OF undisturbed_Cons(1) [OF Cons.prems]]
  have d: "\<And>p re st ex a. alone_inv st (ev # evs) (proxy_dispatch opts env p re st ex a (ev # evs))"
    by (intro alone_inv_dispatch [OF Cons.prems]) blast+
  with alone_inv_attempt [OF Cons.prems, of opts env] show ?case by blast
qed

lemma alone_inv_call:
  "undisturbed evs \<Longrightarrow> alone_inv st evs (makeProxyRequest opts env st evs)"
  using alone_inv_runs [of evs opts env]
  by (simp add: makeProxyRequest_def alone_inv_direct)

text \<open>
  Claim C3, amended. The counter \<open>http405Count\<close> is the number of 405 answers to requests
  through a proxy since the last such answer with status 200, whatever calls and endpoints
  the answers belong to and in whatever order their callbacks run: a 405 answer increments
  it, only a 200 answer to a request through a proxy resets it to 0, and no other answer
  (not another 2xx status, not the answer to a direct request) and no other step of the
  wrapper changes it. A 405 answer that finds the counter at \<open>MAX_405_ERRORS - 1 = 4\<close> or
  above sets the stored flag to \<open>false\<close> (provided \<open>localStorage\<close> takes the write), and
  its call ends with one direct request; the wrapper never sets the flag otherwise. So
  five 405 answers without a 200 answer in between disable the layer, and fewer do not.
  For a call that runs on its own this gives the counter and the flag at its end from
  those at its start and the statuses of its answers.
  A call made while the layer is disabled sends one direct request with the caller's
  options, selects no proxy and changes nothing.
\<close>

theorem circuit_breaker:
  assumes "makeProxyRequest opts env st evs = (res, st', tr)"
  shows "(\<not> isProxyEnabled st \<longrightarrow>
            res = direct_disabled evs \<and> map d_site tr = [DirectDisabled]
            \<and> map d_request tr = [direct_request opts]
            \<and> st' = (case evs of [] \<Rightarrow> st | ev # _ \<Rightarrow> state_at_answer ev st))
       \<and> (\<forall>i a p. i < length tr \<and> i < length evs \<and> d_site (tr ! i) = ProxyAttempt a p \<longrightarrow>
            d_after (tr ! i) = module_steps [Answered opts p False (evs ! i)] (d_before (tr ! i)))
       \<and> (\<forall>i a p. i < length tr \<and> i < length evs \<and> d_site (tr ! i) = GetReissue a p \<longrightarrow>
            d_after (tr ! i) = module_steps [Answered opts p True (evs ! i)] (d_before (tr ! i)))
       \<and> (\<forall>i. i < length tr \<and> i < length evs \<and> is_direct_site (d_site (tr ! i)) \<longrightarrow>
            d_after (tr ! i) = d_before (tr ! i) \<and> st' = d_before (tr ! i) \<and> Suc i = length tr)
       \<and> (\<forall>i r. i < length tr \<and> i < length evs \<and> is_proxied (d_site (tr ! i))
              \<and> outcome (evs ! i) = Load r \<and> status r = 405
              \<and> MAX_405_ERRORS \<le> http405Count (d_before (tr ! i)) + 1 \<longrightarrow>
            Suc (Suc i) = length tr \<and> d_site (tr ! Suc i) = DirectAutoDisabled)
       \<and> (undisturbed evs \<longrightarrow>
            http405Count st' = streak (http405Count st) (proxied_statuses tr evs)
            \<and> (\<not> ls_set_throws st \<longrightarrow>
                 isProxyEnabled st' =
                   (isProxyEnabled st \<and> \<not> tripped (http405Count st) (proxied_statuses tr evs))))
       \<and> http405Count (module_steps steps st0) = streak (http405Count st0) (answer_statuses steps)
       \<and> (\<not> ls_set_throws st0 \<longrightarrow>
            ls_proxy_enabled (module_steps steps st0) =
              (if tripped (http405Count st0) (answer_statuses steps) then Some ''false''
               else ls_proxy_enabled st0)
            \<and> isProxyEnabled (module_steps steps st0) =
                (isProxyEnabled st0 \<and> \<not> tripped (http405Count st0) (answer_statuses steps)))
       \<and> (200 \<notin> set S \<longrightarrow>
            streak c S = c + count_list S 405
            \<and> tripped c S = (405 \<in> set S \<and> MAX_405_ERRORS \<le> c + count_list S 405))"
proof -
  have one: "\<not> isProxyEnabled st \<longrightarrow>
            res = direct_disabled evs \<and> map d_site tr = [DirectDisabled]
            \<and> map d_request tr = [direct_request opts]
            \<and> st' = (case evs of [] \<Rightarrow> st | ev # _ \<Rightarrow> state_at_answer ev st)"
    using assms by (auto simp: makeProxyRequest_def direct_dispatch_def Let_def)
  have two: "\<forall>i a p. i < length tr \<and> i < length evs \<and> d_site (tr ! i) = ProxyAttempt a p \<longrightarrow>
            d_after (tr ! i) = module_steps [Answered opts p False (evs ! i)] (d_before (tr ! i))"
  proof (intro allI impI)
    fix i a p
    assume h: "i < length tr \<and> i < length evs \<and> d_site (tr ! i) = ProxyAttempt a p"
    with step_ok_call [OF assms, of i]
    show "d_after (tr ! i) = module_steps [Answered opts p False (evs ! i)] (d_before (tr ! i))"
      by (simp add: step_ok_def)
  qed
  have three: "\<forall>i a p. i < length tr \<and> i < length evs \<and> d_site (tr ! i) = GetReissue a p \<longrightarrow>
            d_after (tr ! i) = module_steps [Answered opts p True (evs ! i)] (d_before (tr ! i))"
  proof (intro allI impI)
    fix i a p
    assume h: "i < length tr \<and> i < length evs \<and> d_site (tr ! i) = GetReissue a p"
    with step_ok_call [OF assms, of i]
    show "d_after (tr ! i) = module_steps [Answered opts p True (evs ! i)] (d_before (tr ! i))"
      by (simp add: step_ok_def)
  qed
  have four: "\<forall>i. i < length tr \<and> i < length evs \<and> is_direct_site (d_site (tr ! i)) \<longrightarrow>
            d_after (tr ! i) = d_before (tr ! i) \<and> st' = d_before (tr ! i) \<and> Suc i = length tr"
  proof (intro allI impI)
    fix i
    assume h: "i < length tr \<and> i < length evs \<and> is_direct_site (d_site (tr ! i))"
    with step_ok_call [OF assms, of i]
    show "d_after (tr ! i) = d_before (tr ! i) \<and> st' = d_before (tr ! i) \<and> Suc i = length tr"
      by (cases "d_site (tr ! i)") (simp_all add: step_ok_def drop_Suc_Nil)
  qed
  have five: "\<forall>i r. i < length tr \<and> i < length evs \<and> is_proxied (d_site (tr ! i))
              \<and> outcome (evs ! i) = Load r \<and> status r = 405
              \<and> MAX_405_ERRORS \<le> http405Count (d_before (tr ! i)) + 1 \<longrightarrow>
            Suc (Suc i) = length tr \<and> d_site (tr ! Suc i) = DirectAutoDisabled"
  proof (intro allI impI)
    fix i r
    assume h: "i < length tr \<and> i < length evs \<and> is_proxied (d_site (tr ! i))
              \<and> outcome (evs ! i) = Load r \<and> status r = 405
              \<and> MAX_405_ERRORS \<le> http405Count (d_before (tr ! i)) + 1"
    then have t: "fst (proxy_callback opts p re (evs ! i) (d_before (tr ! i))) = DirectAfterDisable"
      for p re
      by (simp add: proxy_callback_def onload_trip)
    from h step_ok_call [OF assms, of i]
    have "length (drop (Suc i) tr) = 1 \<and> d_site (hd (drop (Suc i) tr)) = DirectAutoDisabled"
      by (cases "d_site (tr ! i)") (simp_all add: step_ok_def t continues_def)
    then show "Suc (Suc i) = length tr \<and> d_site (tr ! Suc i) = DirectAutoDisabled"
      by (auto simp: hd_drop_conv_nth)
  qed
  have nine: "undisturbed evs \<longrightarrow>
            http405Count st' = streak (http405Count st) (proxied_statuses tr evs)
            \<and> (\<not> ls_set_throws st \<longrightarrow>
                 isProxyEnabled st' =
                   (isProxyEnabled st \<and> \<not> tripped (http405Count st) (proxied_statuses tr evs)))"
  proof
    assume "undisturbed evs"
    from alone_inv_call [OF this, of st opts env] assms
    obtain steps where s: "st' = module_steps steps st"
      "answer_statuses steps = proxied_statuses tr evs"
      unfolding alone_inv_def by auto
    show "http405Count st' = streak (http405Count st) (proxied_statuses tr evs)
            \<and> (\<not> ls_set_throws st \<longrightarrow>
                 isProxyEnabled st' =
                   (isProxyEnabled st \<and> \<not> tripped (http405Count st) (proxied_statuses tr evs)))"
      unfolding s(1) s(2) [symmetric]
      using module_steps_count [of steps st] module_steps_enabled [of st steps] by blast
  qed
  have six: "http405Count (module_steps steps st0) =
      streak (http405Count st0) (answer_statuses steps)"
    by (rule module_steps_count)
  have seven: "\<not> ls_set_throws st0 \<longrightarrow>
            ls_proxy_enabled (module_steps steps st0) =
              (if tripped (http405Count st0) (answer_statuses steps) then Some ''false''
               else ls_proxy_enabled st0)
            \<and> isProxyEnabled (module_steps steps st0) =
                (isProxyEnabled st0 \<and> \<not> tripped (http405Count st0) (answer_statuses steps))"
    using module_steps_flag [of st0 steps] module_steps_enabled [of st0 steps] by blast
  have eight: "200 \<notin> set S \<longrightarrow>
            streak c S = c + count_list S 405
            \<and> tripped c S = (405 \<in> set S \<and> MAX_405_ERRORS \<le> c + count_list S 405)"
    using streak_no_200 [of S c] tripped_no_200 [of S c] by blast
  show ?thesis
    by (intro conjI) (rule one two three four five six seven eight nine)+
qed

subsection \<open>Runs on concrete inputs\<close>

lemma weight_positive: "0 < proxy_weight t s"
  using weight_floor [of t s] by simp

lemma select_single:
  assumes "proxyList st = [p]" and "0 \<le> rand1 d" and "rand1 d < 1"
  shows "selectRandomProxy d ex st = (Some p, st)"
proof -
  have e: "ensureProxyDataLoaded st = st"
    using assms(1) by (simp add: ensureProxyDataLoaded_def)
  show ?thesis
  proof (cases "proxy p \<in> set ex")
    case True
    have "\<lfloor>rand1 d\<rfloor> = 0" using assms(2,3) by (simp add: floor_eq_iff)
    with True assms(1) show ?thesis
      by (simp add: selectRandomProxy_def e array_at_def)
  next
    case False
    define w where "w = proxy_weight (sel_now d) (proxyStats st (proxy p))"
    have "0 < w" unfolding w_def by (rule weight_positive)
    with assms(3) have "rand1 d * w - w \<le> 0"
      by (simp add: mult_le_cancel_right1)
    with False assms(1) show ?thesis
      by (simp add: selectRandomProxy_def e w_def)
  qed
qed

lemma attempt_env0:
  "proxyList st = [p] \<Longrightarrow> a < MAX_PROXY_RETRIES \<Longrightarrow>
   attemptRequest opts env0 st ex a evs = proxy_dispatch opts env0 p False st ex (Suc a) evs"
  by (simp add: attemptRequest.simps [of opts env0 st ex a] select_single env0_def)

lemma attempt_exhausted:
  "MAX_PROXY_RETRIES \<le> a \<Longrightarrow>
   attemptRequest opts env st ex a evs =
     direct_dispatch DirectExhausted opts (direct_exhausted evs) st evs"
  by (simp add: attemptRequest.simps [of opts env st ex a])

lemmas run_eval =
  makeProxyRequest_def attempt_env0 attempt_exhausted proxy_dispatch.simps proxy_callback_def
  onload_def onerror_def ontimeout_def state_at_answer_def direct_dispatch_def Let_def sent_eq
  MAX_PROXY_RETRIES_def MAX_405_ERRORS_def answer_def net_error_def timed_out_def
  direct_exhausted_def direct_auto_disabled_def direct_disabled_def

lemma example_state_simps [simp]:
  "proxyList example_state = [example_proxy]" "isProxyEnabled example_state"
  "http405Count example_state = 0" "\<not> ls_set_throws example_state"
  "proxyStats example_state = Map.empty"
  by (simp_all add: example_state_def isProxyEnabled_def)

lemma isProxyEnabled_updateProxyStats [simp]:
  "isProxyEnabled (updateProxyStats t k s rt b st) = isProxyEnabled st"
  by (simp add: isProxyEnabled_def)

lemma isProxyEnabled_count [simp]:
  "isProxyEnabled (st\<lparr>http405Count := n\<rparr>) = isProxyEnabled st"
  by (simp add: isProxyEnabled_def)

lemma isProxyEnabled_set_False [simp]:
  "\<not> ls_set_throws st \<Longrightarrow> \<not> isProxyEnabled (setProxyEnabled False st)"
  by (simp add: isProxyEnabled_def setProxyEnabled_def Let_def)

lemma get_opts_simps [simp]:
  "http_method get_opts = Some ''GET''" "http_method post_opts = Some ''POST''"
  by (simp_all add: get_opts_def post_opts_def)

lemma counter_kept_alone [simp]:
  "counter_kept []"
  "counter_kept (answer s # evs) = counter_kept evs"
  "counter_kept (net_error m # evs) = counter_kept evs"
  "counter_kept (timed_out # evs) = counter_kept evs"
  by (simp_all add: counter_kept_def answer_def net_error_def timed_out_def)

lemma undisturbed_alone [simp]:
  "undisturbed []"
  "undisturbed (answer s # evs) = undisturbed evs"
  "undisturbed (net_error m # evs) = undisturbed evs"
  "undisturbed (timed_out # evs) = undisturbed evs"
  by (simp_all add: undisturbed_def answer_def net_error_def timed_out_def)

lemma run_collapse: "R = (fst R, fst (snd R), snd (snd R))"
  by simp

lemma site_last: "map d_site tr = sites \<Longrightarrow> sites \<noteq> [] \<Longrightarrow> d_site (last tr) = last sites"
  by (metis last_map map_is_Nil_conv)

lemma site_nth: "map d_site tr = sites \<Longrightarrow> i < length sites \<Longrightarrow> d_site (tr ! i) = sites ! i"
  by (metis length_map nth_map)

lemma sites_length: "map d_site tr = sites \<Longrightarrow> length tr = length sites"
  by (metis length_map)

lemma exhausted_sites:
  "map d_site (snd (snd (makeProxyRequest get_opts env0 example_state
      [net_error ''refused'', timed_out, answer 500, net_error ''offline'']))) =
     [ProxyAttempt 1 example_proxy, ProxyAttempt 2 example_proxy, ProxyAttempt 3 example_proxy,
      DirectExhausted]"
  by (simp add: run_eval)

theorem exhaustion_error_witness:
  "map d_site (snd (snd (makeProxyRequest get_opts env0 example_state
      [net_error ''refused'', timed_out, answer 500, net_error ''offline'']))) =
     [ProxyAttempt 1 example_proxy, ProxyAttempt 2 example_proxy, ProxyAttempt 3 example_proxy,
      DirectExhausted]
   \<and> outcome ([net_error ''refused'', timed_out, answer 500, net_error ''offline''] ! 3) =
       NetError ''offline''
   \<and> fst (makeProxyRequest get_opts env0 example_state
          [net_error ''refused'', timed_out, answer 500, net_error ''offline'']) =
       Rejected (NewError ''All proxy attempts and direct request failed'')
   \<and> length (filter (\<lambda>d. is_attempt (d_site d)) (snd (snd (makeProxyRequest get_opts env0
          example_state [net_error ''refused'', timed_out, answer 500, net_error ''offline''])))) =
       MAX_PROXY_RETRIES"
proof -
  let ?evs = "[net_error ''refused'', timed_out, answer 500, net_error ''offline'']"
  let ?R = "makeProxyRequest get_opts env0 example_state ?evs"
  note s = exhausted_sites
  have l: "d_site (last (snd (snd ?R))) = DirectExhausted"
    using site_last [OF s] by simp
  have n: "length (snd (snd ?R)) = 4"
    using sites_length [OF s] by simp
  have o: "outcome (?evs ! 3) = NetError ''offline''"
    by (simp add: net_error_def)
  from exhaustion_error [OF run_collapse l,
      of "NewError ''All proxy attempts and direct request failed''"] n o s
  show ?thesis
    by simp
qed

text \<open>Claim C9 as stated fails: two calls whose proxy errors and direct errors differ are
  rejected with the same error, which names none of them.\<close>

theorem exhaustion_error_counterexample:
  "fst (makeProxyRequest get_opts env0 example_state
          [net_error ''refused'', timed_out, answer 500, net_error ''offline'']) =
     Rejected (NewError ''All proxy attempts and direct request failed'')
   \<and> fst (makeProxyRequest get_opts env0 example_state
          [answer 503, answer 502, net_error ''tunnel failed'', timed_out]) =
     Rejected (NewError ''All proxy attempts and direct request failed'')
   \<and> map d_site (snd (snd (makeProxyRequest get_opts env0 example_state
          [answer 503, answer 502, net_error ''tunnel failed'', timed_out]))) =
     [ProxyAttempt 1 example_proxy, ProxyAttempt 2 example_proxy, ProxyAttempt 3 example_proxy,
      DirectExhausted]"
  by (simp add: run_eval)

lemma get_run_sites:
  "map d_site (snd (snd (makeProxyRequest get_opts env0 example_state
      [answer 404, net_error ''refused'', timed_out, answer 200]))) =
     [ProxyAttempt 1 example_proxy, ProxyAttempt 2 example_proxy, ProxyAttempt 3 example_proxy,
      DirectExhausted]"
  by (simp add: run_eval)

lemma post_run_sites:
  "map d_site (snd (snd (makeProxyRequest post_opts env0 example_state
      [answer 405, answer 405, answer 405, answer 405, answer 500, answer 500, answer 500,
       answer 200]))) =
     [ProxyAttempt 1 example_proxy, GetReissue 1 example_proxy, GetReissue 1 example_proxy,
      GetReissue 1 example_proxy, GetReissue 1 example_proxy, ProxyAttempt 2 example_proxy,
      ProxyAttempt 3 example_proxy, DirectExhausted]"
  by (simp add: run_eval)

lemma post_run_first:
  "http405Count (d_before (snd (snd (makeProxyRequest post_opts env0 example_state
      [answer 405, answer 405, answer 405, answer 405, answer 500, answer 500, answer 500,
       answer 200])) ! 0)) = 0"
  by (simp add: run_eval)

theorem retry_bound_witness:
  "http_method get_opts \<noteq> Some ''POST''
   \<and> map d_site (snd (snd (makeProxyRequest get_opts env0 example_state
        [answer 404, net_error ''refused'', timed_out, answer 200]))) =
       [ProxyAttempt 1 example_proxy, ProxyAttempt 2 example_proxy, ProxyAttempt 3 example_proxy,
        DirectExhausted]
   \<and> filter (\<lambda>d. is_reissue (d_site d)) (snd (snd (makeProxyRequest get_opts env0
        example_state [answer 404, net_error ''refused'', timed_out, answer 200]))) = []
   \<and> http_method post_opts = Some ''POST''
   \<and> counter_kept [answer 405, answer 405, answer 405, answer 405, answer 500, answer 500,
        answer 500, answer 200]
   \<and> http405Count example_state = 0
   \<and> map d_site (snd (snd (makeProxyRequest post_opts env0 example_state
        [answer 405, answer 405, answer 405, answer 405, answer 500, answer 500, answer 500,
         answer 200]))) =
       [ProxyAttempt 1 example_proxy, GetReissue 1 example_proxy, GetReissue 1 example_proxy,
        GetReissue 1 example_proxy, GetReissue 1 example_proxy, ProxyAttempt 2 example_proxy,
        ProxyAttempt 3 example_proxy, DirectExhausted]
   \<and> length (filter (\<lambda>d. is_attempt (d_site d)) (snd (snd (makeProxyRequest post_opts env0
        example_state [answer 405, answer 405, answer 405, answer 405, answer 500, answer 500,
        answer 500, answer 200])))) \<le> 3
   \<and> length (filter (\<lambda>d. is_reissue (d_site d)) (snd (snd (makeProxyRequest post_opts env0
        example_state [answer 405, answer 405, answer 405, answer 405, answer 500, answer 500,
        answer 500, answer 200])))) \<le> 4
   \<and> length (filter (\<lambda>d. is_proxied (d_site d)) (snd (snd (makeProxyRequest post_opts env0
        example_state [answer 405, answer 405, answer 405, answer 405, answer 500, answer 500,
        answer 500, answer 200])))) \<le> 7
   \<and> outcome ([answer 405, answer 405, answer 405, answer 405, answer 500, answer 500,
        answer 500, answer 200] ! 0) = Load \<lparr>status = 405, responseText = ''''\<rparr>
   \<and> http405Count (d_before (snd (snd (makeProxyRequest post_opts env0 example_state
        [answer 405, answer 405, answer 405, answer 405, answer 500, answer 500, answer 500,
         answer 200])) ! 0)) + 1 < MAX_405_ERRORS
   \<and> d_site (snd (snd (makeProxyRequest post_opts env0 example_state
        [answer 405, answer 405, answer 405, answer 405, answer 500, answer 500, answer 500,
         answer 200])) ! 1) = GetReissue 1 example_proxy
   \<and> outcome ([answer 405, answer 405, answer 405, answer 405, answer 500, answer 500,
        answer 500, answer 200] ! 3) = Load \<lparr>status = 405, responseText = ''''\<rparr>
   \<and> http405Count (d_after (snd (snd (makeProxyRequest post_opts env0 example_state
        [answer 405, answer 405, answer 405, answer 405, answer 500, answer 500, answer 500,
         answer 200])) ! 3)) < MAX_405_ERRORS
   \<and> d_request (snd (snd (makeProxyRequest post_opts env0 example_state
        [answer 405, answer 405, answer 405, answer 405, answer 500, answer 500, answer 500,
         answer 200])) ! 4) = get_request post_opts example_proxy"
proof -
  let ?evs = "[answer 405, answer 405, answer 405, answer 405, answer 500, answer 500,
        answer 500, answer 200]"
  let ?G = "makeProxyRequest get_opts env0 example_state
        [answer 404, net_error ''refused'', timed_out, answer 200]"
  let ?P = "makeProxyRequest post_opts env0 example_state ?evs"
  note g = retry_bound [OF run_collapse [of ?G]]
  note p = retry_bound [OF run_collapse [of ?P]]
  have k: "counter_kept ?evs" by simp
  have s4: "Suc 3 < length (snd (snd ?P)) \<and> d_site (snd (snd ?P) ! Suc 3) = GetReissue 1 example_proxy"
    using sites_length [OF post_run_sites] site_nth [OF post_run_sites, of 4] by simp
  have o: "outcome (?evs ! 3) = Load \<lparr>status = 405, responseText = ''''\<rparr>"
    by (simp add: answer_def)
  from p s4 have r: "http405Count (d_after (snd (snd ?P) ! 3)) < MAX_405_ERRORS
      \<and> d_request (snd (snd ?P) ! Suc 3) = get_request post_opts example_proxy"
    by blast
  have o0: "outcome (?evs ! 0) = Load \<lparr>status = 405, responseText = ''''\<rparr>"
    by (simp add: answer_def)
  have f0: "0 < length (snd (snd ?P)) \<and> 0 < length ?evs
      \<and> (d_site (snd (snd ?P) ! 0) = ProxyAttempt 1 example_proxy
          \<or> d_site (snd (snd ?P) ! 0) = GetReissue 1 example_proxy)
      \<and> outcome (?evs ! 0) = Load \<lparr>status = 405, responseText = ''''\<rparr>
      \<and> status \<lparr>status = 405, responseText = ''''\<rparr> = 405
      \<and> http405Count (d_before (snd (snd ?P) ! 0)) + 1 < MAX_405_ERRORS
      \<and> http_method post_opts = Some ''POST''"
    using sites_length [OF post_run_sites] site_nth [OF post_run_sites, of 0] o0
    by (simp add: post_run_first MAX_405_ERRORS_def)
  from p f0 have f: "d_site (snd (snd ?P) ! Suc 0) = GetReissue 1 example_proxy"
    by blast
  from p k have b: "length (filter (\<lambda>d. is_attempt (d_site d)) (snd (snd ?P))) \<le> MAX_PROXY_RETRIES
    \<and> length (filter (\<lambda>d. is_reissue (d_site d)) (snd (snd ?P)))
         \<le> MAX_405_ERRORS - 1 - http405Count example_state
    \<and> length (filter (\<lambda>d. is_proxied (d_site d)) (snd (snd ?P)))
         \<le> MAX_PROXY_RETRIES + (MAX_405_ERRORS - 1 - http405Count example_state)"
    by blast
  from g have n: "filter (\<lambda>d. is_reissue (d_site d)) (snd (snd ?G)) = []"
    by simp
  from n b r o o0 f k show ?thesis
    by (simp add: get_run_sites post_run_sites post_run_first MAX_PROXY_RETRIES_def
        MAX_405_ERRORS_def)
qed

text \<open>Claim C2 as stated fails: a \<open>POST\<close> call whose first answer is 405 sends four requests
  through a proxy.\<close>

theorem retry_bound_counterexample:
  "http_method post_opts = Some ''POST''
   \<and> map d_site (snd (snd (makeProxyRequest post_opts env0 example_state
        [answer 405, answer 500, answer 500, answer 500, answer 200]))) =
       [ProxyAttempt 1 example_proxy, GetReissue 1 example_proxy, ProxyAttempt 2 example_proxy,
        ProxyAttempt 3 example_proxy, DirectExhausted]
   \<and> length (filter (\<lambda>d. is_proxied (d_site d)) (snd (snd (makeProxyRequest post_opts env0
        example_state [answer 405, answer 500, answer 500, answer 500, answer 200])))) = 4
   \<and> \<not> (4 \<le> MAX_PROXY_RETRIES)"
  by (simp add: run_eval)

lemma after_call1_simps [simp]:
  "proxyList after_call1 = [example_proxy]" "isProxyEnabled after_call1"
  "http405Count after_call1 = 3" "\<not> ls_set_throws after_call1"
  by (simp_all add: after_call1_def run_eval)

lemma after_call1_stats:
  "proxyStats after_call1 ''10.0.0.1:8080'' =
     Some \<lparr>totalRequests = 3, successfulRequests = 0, totalResponseTime = 0, lastUsed = 1000,
           failures = 3, avgResponseTime = 0, blockedCount = 0, lastBlocked = 0\<rparr>"
  by (simp add: after_call1_def run_eval proxyStats_updateProxyStats stats_or_new_def
      update_stats_def new_stats_def example_proxy_def)

lemma example_proxy_key [simp]: "proxy example_proxy = ''10.0.0.1:8080''"
  by (simp add: example_proxy_def)

lemma success_run:
  "map d_site (snd (snd (makeProxyRequest get_opts env0 after_call1 [answer 201, answer 200]))) =
     [ProxyAttempt 1 example_proxy, ProxyAttempt 2 example_proxy]"
  "http405Count (d_before (snd (snd (makeProxyRequest get_opts env0 after_call1
      [answer 201, answer 200])) ! 0)) = 3"
  "proxyStats (d_before (snd (snd (makeProxyRequest get_opts env0 after_call1
      [answer 201, answer 200])) ! 0)) ''10.0.0.1:8080'' =
     Some \<lparr>totalRequests = 3, successfulRequests = 0, totalResponseTime = 0, lastUsed = 1000,
           failures = 3, avgResponseTime = 0, blockedCount = 0, lastBlocked = 0\<rparr>"
  "http405Count (d_before (snd (snd (makeProxyRequest get_opts env0 after_call1
      [answer 201, answer 200])) ! Suc 0)) = 3"
  "proxyStats (d_before (snd (snd (makeProxyRequest get_opts env0 after_call1
      [answer 201, answer 200])) ! Suc 0)) ''10.0.0.1:8080'' =
     Some \<lparr>totalRequests = 4, successfulRequests = 0, totalResponseTime = 0, lastUsed = 1000,
           failures = 4, avgResponseTime = 0, blockedCount = 0, lastBlocked = 0\<rparr>"
  by (simp_all add: run_eval proxyStats_updateProxyStats stats_or_new_def update_stats_def
      after_call1_stats)

theorem proxied_200_succeeds_witness:
  "http405Count after_call1 = 3
   \<and> map d_site (snd (snd (makeProxyRequest get_opts env0 after_call1
        [answer 201, answer 200]))) =
       [ProxyAttempt 1 example_proxy, ProxyAttempt 2 example_proxy]
   \<and> outcome ([answer 201, answer 200] ! 0) = Load \<lparr>status = 201, responseText = ''''\<rparr>
   \<and> outcome ([answer 201, answer 200] ! 1) = Load \<lparr>status = 200, responseText = ''''\<rparr>
   \<and> http405Count (d_after (snd (snd (makeProxyRequest get_opts env0 after_call1
        [answer 201, answer 200])) ! 0)) = 3
   \<and> proxyStats (d_after (snd (snd (makeProxyRequest get_opts env0 after_call1
        [answer 201, answer 200])) ! 0)) ''10.0.0.1:8080'' =
       Some \<lparr>totalRequests = 4, successfulRequests = 0, totalResponseTime = 0, lastUsed = 1000,
             failures = 4, avgResponseTime = 0, blockedCount = 0, lastBlocked = 0\<rparr>
   \<and> http405Count (d_before (snd (snd (makeProxyRequest get_opts env0 after_call1
        [answer 201, answer 200])) ! 1)) = 3
   \<and> fst (makeProxyRequest get_opts env0 after_call1 [answer 201, answer 200]) =
       Resolved \<lparr>status = 200, responseText = ''''\<rparr>
   \<and> http405Count (fst (snd (makeProxyRequest get_opts env0 after_call1
        [answer 201, answer 200]))) = 0
   \<and> proxyStats (fst (snd (makeProxyRequest get_opts env0 after_call1
        [answer 201, answer 200]))) ''10.0.0.1:8080'' =
       Some \<lparr>totalRequests = 5, successfulRequests = 1, totalResponseTime = 100,
             lastUsed = 1000, failures = 3, avgResponseTime = 100, blockedCount = 0,
             lastBlocked = 0\<rparr>"
proof -
  let ?evs = "[answer 201, answer 200]"
  let ?R = "makeProxyRequest get_opts env0 after_call1 ?evs"
  note s = success_run(1)
  have n: "length (snd (snd ?R)) = 2"
    using sites_length [OF s] by simp
  have s0: "d_site (snd (snd ?R) ! 0) = ProxyAttempt 1 example_proxy
      \<or> d_site (snd (snd ?R) ! 0) = GetReissue 1 example_proxy"
    using site_nth [OF s, of 0] by simp
  have s1: "d_site (snd (snd ?R) ! 1) = ProxyAttempt 2 example_proxy
      \<or> d_site (snd (snd ?R) ! 1) = GetReissue 2 example_proxy"
    using site_nth [OF s, of 1] by simp
  have o0: "outcome (?evs ! 0) = Load \<lparr>status = 201, responseText = ''''\<rparr>"
    and o1: "outcome (?evs ! 1) = Load \<lparr>status = 200, responseText = ''''\<rparr>"
    by (simp_all add: answer_def)
  have e: "clock (answer k) = 1000" "elapsed (answer k) = 100" for k
    by (simp_all add: answer_def)
  have l: "0 < length (snd (snd ?R))" "1 < length (snd (snd ?R))"
    "0 < length ?evs" "1 < length ?evs"
    using n by simp_all
  note first = proxied_200_succeeds [OF run_collapse l(1) l(3) s0 o0]
  note second = proxied_200_succeeds [OF run_collapse l(2) l(4) s1 o1]
  from first have f: "http405Count (d_after (snd (snd ?R) ! 0)) = 3
     \<and> proxyStats (d_after (snd (snd ?R) ! 0)) ''10.0.0.1:8080'' =
       Some \<lparr>totalRequests = 4, successfulRequests = 0, totalResponseTime = 0, lastUsed = 1000,
             failures = 4, avgResponseTime = 0, blockedCount = 0, lastBlocked = 0\<rparr>"
    by (simp add: e success_run stats_or_new_def update_stats_def proxyStats_recorded)
  from second have g: "fst ?R = Resolved \<lparr>status = 200, responseText = ''''\<rparr>
     \<and> http405Count (fst (snd ?R)) = 0
     \<and> proxyStats (fst (snd ?R)) ''10.0.0.1:8080'' =
       Some \<lparr>totalRequests = 5, successfulRequests = 1, totalResponseTime = 100,
             lastUsed = 1000, failures = 3, avgResponseTime = 100, blockedCount = 0,
             lastBlocked = 0\<rparr>"
    by (simp add: e success_run stats_or_new_def update_stats_def Math_round_def
        proxyStats_recorded)
  from f g s o0 o1 success_run(4) show ?thesis
    by simp
qed

text \<open>Claim C1 as stated fails: an answer with status 201 is recorded as a failure, the
  counter keeps its value 3, and the call goes on to the next attempts and ends with the
  response of the direct request.\<close>

theorem proxied_2xx_counterexample:
  "http405Count after_call1 = 3
   \<and> fst (makeProxyRequest get_opts env0 after_call1
          [answer 201, net_error ''refused'', timed_out, answer 404]) =
       Resolved \<lparr>status = 404, responseText = ''''\<rparr>
   \<and> map d_site (snd (snd (makeProxyRequest get_opts env0 after_call1
          [answer 201, net_error ''refused'', timed_out, answer 404]))) =
       [ProxyAttempt 1 example_proxy, ProxyAttempt 2 example_proxy, ProxyAttempt 3 example_proxy,
        DirectExhausted]
   \<and> http405Count (fst (snd (makeProxyRequest get_opts env0 after_call1
          [answer 201, net_error ''refused'', timed_out, answer 404]))) = 3
   \<and> proxyStats (fst (snd (makeProxyRequest get_opts env0 after_call1
          [answer 201, net_error ''refused'', timed_out, answer 404]))) ''10.0.0.1:8080'' =
       Some \<lparr>totalRequests = 6, successfulRequests = 0, totalResponseTime = 0, lastUsed = 1000,
             failures = 6, avgResponseTime = 0, blockedCount = 0, lastBlocked = 0\<rparr>"
  by (simp add: run_eval proxyStats_updateProxyStats stats_or_new_def update_stats_def
      after_call1_stats)

lemma answer_simps [simp]:
  "outcome (answer k) = Load \<lparr>status = k, responseText = ''''\<rparr>"
  "answer_status (answer k) = [k]"
  by (simp_all add: answer_def answer_status_def)

lemma outer_run:
  "map d_site (snd (snd (makeProxyRequest get_opts env0 example_state outer_events))) =
     [ProxyAttempt 1 example_proxy, ProxyAttempt 2 example_proxy, DirectAutoDisabled]"
  "http405Count (d_after (snd (snd (makeProxyRequest get_opts env0 example_state outer_events))
      ! 0)) = 1"
  "http405Count (d_before (snd (snd (makeProxyRequest get_opts env0 example_state outer_events))
      ! Suc 0)) = 4"
  "isProxyEnabled (d_before (snd (snd (makeProxyRequest get_opts env0 example_state
      outer_events)) ! Suc 0))"
  "\<not> ls_set_throws (d_before (snd (snd (makeProxyRequest get_opts env0 example_state
      outer_events)) ! Suc 0))"
  "d_before (snd (snd (makeProxyRequest get_opts env0 example_state outer_events)) ! 2) =
     d_after (snd (snd (makeProxyRequest get_opts env0 example_state outer_events)) ! Suc 0)"
  "outer_events ! Suc 0 = answer 405"
  "length outer_events = 3"
  by (simp_all add: run_eval outer_events_def inner_call_def)

lemma post_run:
  "map d_site (snd (snd (makeProxyRequest post_opts env0 example_state [answer 405, answer 200]))) =
     [ProxyAttempt 1 example_proxy, GetReissue 1 example_proxy]"
  "http405Count (d_before (snd (snd (makeProxyRequest post_opts env0 example_state
      [answer 405, answer 200])) ! Suc 0)) = 1"
  by (simp_all add: run_eval)

lemma call1_run:
  "map d_site (snd (snd (makeProxyRequest get_opts env0 example_state
      [answer 405, answer 405, answer 405, answer 200]))) =
     [ProxyAttempt 1 example_proxy, ProxyAttempt 2 example_proxy, ProxyAttempt 3 example_proxy,
      DirectExhausted]"
  by (simp add: run_eval)

lemma proxied_statuses_sites:
  "proxied_statuses tr evs =
     concat (map (\<lambda>(s, ev). if is_proxied s then answer_status ev else [])
               (zip (map d_site tr) evs))"
  by (induction tr evs rule: proxied_statuses.induct) simp_all

lemma mixed_statuses:
  "answer_statuses mixed_steps = [405, 405, 405, 204, 405, 405]"
  "answer_statuses (butlast mixed_steps) = [405, 405, 405, 204, 405]"
  by (simp_all add: mixed_steps_def)

theorem circuit_breaker_witness:
  "map d_site (snd (snd (makeProxyRequest get_opts env0 example_state outer_events))) =
     [ProxyAttempt 1 example_proxy, ProxyAttempt 2 example_proxy, DirectAutoDisabled]
   \<and> http405Count example_state = 0
   \<and> http405Count (d_after (snd (snd (makeProxyRequest get_opts env0 example_state
        outer_events)) ! 0)) = 1
   \<and> http405Count (d_before (snd (snd (makeProxyRequest get_opts env0 example_state
        outer_events)) ! 1)) = 4
   \<and> outer_events ! 1 = answer 405
   \<and> http405Count (d_after (snd (snd (makeProxyRequest get_opts env0 example_state
        outer_events)) ! 1)) = 5
   \<and> \<not> isProxyEnabled (d_after (snd (snd (makeProxyRequest get_opts env0 example_state
        outer_events)) ! 1))
   \<and> fst (snd (makeProxyRequest get_opts env0 example_state outer_events)) =
       d_after (snd (snd (makeProxyRequest get_opts env0 example_state outer_events)) ! 1)
   \<and> map d_site (snd (snd (makeProxyRequest get_opts env0
        (fst (snd (makeProxyRequest get_opts env0 example_state outer_events)))
        [answer 200]))) = [DirectDisabled]
   \<and> fst (snd (makeProxyRequest get_opts env0
        (fst (snd (makeProxyRequest get_opts env0 example_state outer_events)))
        [answer 200])) =
       fst (snd (makeProxyRequest get_opts env0 example_state outer_events))
   \<and> map d_site (snd (snd (makeProxyRequest post_opts env0 example_state
        [answer 405, answer 200]))) =
       [ProxyAttempt 1 example_proxy, GetReissue 1 example_proxy]
   \<and> http405Count (d_before (snd (snd (makeProxyRequest post_opts env0 example_state
        [answer 405, answer 200])) ! 1)) = 1
   \<and> http405Count (d_after (snd (snd (makeProxyRequest post_opts env0 example_state
        [answer 405, answer 200])) ! 1)) = 0
   \<and> undisturbed [answer 405, answer 405, answer 405, answer 200]
   \<and> proxied_statuses (snd (snd (makeProxyRequest get_opts env0 example_state
        [answer 405, answer 405, answer 405, answer 200])))
        [answer 405, answer 405, answer 405, answer 200] = [405, 405, 405]
   \<and> http405Count after_call1 = 3 \<and> isProxyEnabled after_call1
   \<and> answer_statuses mixed_steps = [405, 405, 405, 204, 405, 405]
   \<and> http405Count (module_steps mixed_steps example_state) = 5
   \<and> \<not> isProxyEnabled (module_steps mixed_steps example_state)
   \<and> answer_statuses (butlast mixed_steps) = [405, 405, 405, 204, 405]
   \<and> http405Count (module_steps (butlast mixed_steps) example_state) = 4
   \<and> isProxyEnabled (module_steps (butlast mixed_steps) example_state)"
proof -
  let ?O = "makeProxyRequest get_opts env0 example_state outer_events"
  let ?D = "makeProxyRequest get_opts env0 (fst (snd ?O)) [answer 200]"
  let ?P = "makeProxyRequest post_opts env0 example_state [answer 405, answer 200]"
  let ?evs1 = "[answer 405, answer 405, answer 405, answer 200]"
  let ?A = "makeProxyRequest get_opts env0 example_state ?evs1"
  let ?B = "d_before (snd (snd ?O) ! Suc 0)"
  let ?C = "d_before (snd (snd ?P) ! Suc 0)"
  note cO = circuit_breaker [OF run_collapse [of ?O]]
  note cD = circuit_breaker [OF run_collapse [of ?D]]
  note cP = circuit_breaker [OF run_collapse [of ?P]]
  note cA = circuit_breaker [OF run_collapse [of ?A]]
  have nO: "length (snd (snd ?O)) = 3"
    using sites_length [OF outer_run(1)] by simp
  have sO: "d_site (snd (snd ?O) ! Suc 0) = ProxyAttempt 2 example_proxy"
    "d_site (snd (snd ?O) ! 2) = DirectAutoDisabled"
    using site_nth [OF outer_run(1), of 1] site_nth [OF outer_run(1), of 2] by simp_all
  have "d_after (snd (snd ?O) ! Suc 0) =
      module_steps [Answered get_opts example_proxy False (outer_events ! Suc 0)] ?B"
    by (rule cO [THEN conjunct2, THEN conjunct1, rule_format, of "Suc 0" 2 example_proxy])
       (simp add: nO sO outer_run(8))
  then have a1: "d_after (snd (snd ?O) ! Suc 0) =
      module_steps [Answered get_opts example_proxy False (answer 405)] ?B"
    by (simp only: outer_run(7))
  have a2: "http405Count (d_after (snd (snd ?O) ! Suc 0)) = 5"
    unfolding a1
    by (simp only: cO [THEN conjunct2, THEN conjunct2, THEN conjunct2, THEN conjunct2,
          THEN conjunct2, THEN conjunct2, THEN conjunct1] outer_run(3))
       (simp add: answer_status_def answer_def)
  have "isProxyEnabled (module_steps [Answered get_opts example_proxy False (answer 405)] ?B) =
      (isProxyEnabled ?B \<and> \<not> tripped (http405Count ?B)
         (answer_statuses [Answered get_opts example_proxy False (answer 405)]))"
    by (rule cO [THEN conjunct2, THEN conjunct2, THEN conjunct2, THEN conjunct2,
          THEN conjunct2, THEN conjunct2, THEN conjunct2, THEN conjunct1, rule_format,
          THEN conjunct2])
       (rule outer_run(5))
  then have a3: "\<not> isProxyEnabled (d_after (snd (snd ?O) ! Suc 0))"
    unfolding a1 by (simp add: outer_run(3) MAX_405_ERRORS_def answer_def)
  have a4: "fst (snd ?O) = d_before (snd (snd ?O) ! 2)"
    using cO [THEN conjunct2, THEN conjunct2, THEN conjunct2, THEN conjunct1, rule_format,
        of 2]
    by (simp add: nO sO(2) outer_run(8))
  have a5: "fst (snd ?O) = d_after (snd (snd ?O) ! Suc 0)"
    using a4 outer_run(6) by simp
  have d0: "\<not> isProxyEnabled (fst (snd ?O))"
    using a3 a5 by simp
  have d1: "map d_site (snd (snd ?D)) = [DirectDisabled] \<and> fst (snd ?D) = fst (snd ?O)"
    using cD [THEN conjunct1, rule_format, OF d0]
    by (simp add: state_at_answer_def answer_def)
  have nP: "length (snd (snd ?P)) = 2"
    using sites_length [OF post_run(1)] by simp
  have sP: "d_site (snd (snd ?P) ! Suc 0) = GetReissue 1 example_proxy"
    using site_nth [OF post_run(1), of 1] by simp
  have "d_after (snd (snd ?P) ! Suc 0) =
      module_steps [Answered post_opts example_proxy True ([answer 405, answer 200] ! Suc 0)] ?C"
    by (rule cP [THEN conjunct2, THEN conjunct2, THEN conjunct1, rule_format,
          of "Suc 0" 1 example_proxy])
       (simp add: nP sP)
  then have p1: "d_after (snd (snd ?P) ! Suc 0) =
      module_steps [Answered post_opts example_proxy True (answer 200)] ?C"
    by simp
  have p2: "http405Count (d_after (snd (snd ?P) ! Suc 0)) = 0"
    unfolding p1
    by (simp only: cP [THEN conjunct2, THEN conjunct2, THEN conjunct2, THEN conjunct2,
          THEN conjunct2, THEN conjunct2, THEN conjunct1])
       (simp add: answer_def)
  have ps: "proxied_statuses (snd (snd ?A)) ?evs1 = [405, 405, 405]"
    by (simp add: proxied_statuses_sites call1_run)
  have "http405Count (fst (snd ?A)) =
        streak (http405Count example_state) (proxied_statuses (snd (snd ?A)) ?evs1)
      \<and> (\<not> ls_set_throws example_state \<longrightarrow>
           isProxyEnabled (fst (snd ?A)) =
             (isProxyEnabled example_state
              \<and> \<not> tripped (http405Count example_state) (proxied_statuses (snd (snd ?A)) ?evs1)))"
    by (rule cA [THEN conjunct2, THEN conjunct2, THEN conjunct2, THEN conjunct2,
          THEN conjunct2, THEN conjunct1, rule_format])
       simp
  then have c1: "http405Count after_call1 = 3 \<and> isProxyEnabled after_call1"
    unfolding ps after_call1_def [symmetric]
    by (simp add: MAX_405_ERRORS_def)
  note count = cA [THEN conjunct2, THEN conjunct2, THEN conjunct2, THEN conjunct2,
      THEN conjunct2, THEN conjunct2, THEN conjunct1]
  note flag = cA [THEN conjunct2, THEN conjunct2, THEN conjunct2, THEN conjunct2,
      THEN conjunct2, THEN conjunct2, THEN conjunct2, THEN conjunct1, rule_format,
      THEN conjunct2]
  note no200 = cA [THEN conjunct2, THEN conjunct2, THEN conjunct2, THEN conjunct2,
      THEN conjunct2, THEN conjunct2, THEN conjunct2, THEN conjunct2, rule_format]
  have t1: "streak 0 [405, 405, 405, 204, 405, 405] = 5 \<and> tripped 0 [405, 405, 405, 204, 405, 405]"
    using no200 [of "[405, 405, 405, 204, 405, 405]" 0] by (simp add: MAX_405_ERRORS_def)
  have t2: "streak 0 [405, 405, 405, 204, 405] = 4 \<and> \<not> tripped 0 [405, 405, 405, 204, 405]"
    using no200 [of "[405, 405, 405, 204, 405]" 0] by (simp add: MAX_405_ERRORS_def)
  have m1: "http405Count (module_steps mixed_steps example_state) = 5
      \<and> \<not> isProxyEnabled (module_steps mixed_steps example_state)"
    using count [of mixed_steps example_state] flag [of example_state mixed_steps] t1
    by (simp only: mixed_statuses example_state_simps) simp
  have m2: "http405Count (module_steps (butlast mixed_steps) example_state) = 4
      \<and> isProxyEnabled (module_steps (butlast mixed_steps) example_state)"
    using count [of "butlast mixed_steps" example_state]
      flag [of example_state "butlast mixed_steps"] t2
    by (simp only: mixed_statuses example_state_simps) simp
  from a2 a3 a5 d1 p2 ps c1 m1 m2 show ?thesis
    by (simp add: outer_run post_run mixed_statuses)
qed

text \<open>Claim C3 as stated fails: the counter is not reset by an answer with status 204 nor
  by a successful direct request, so that after the answers 405, 204, 405 (with three 405
  answers before) the layer disables itself.\<close>

lemma trip_after_204:
  "map d_site (snd (snd (makeProxyRequest get_opts env0 after_call1
      [answer 405, answer 204, answer 405, answer 200]))) =
     [ProxyAttempt 1 example_proxy, ProxyAttempt 2 example_proxy, ProxyAttempt 3 example_proxy,
      DirectAutoDisabled]"
  by (simp add: run_eval)

theorem circuit_breaker_counterexample:
  "http405Count after_call1 = 3 \<and> isProxyEnabled after_call1
   \<and> proxied_statuses (snd (snd (makeProxyRequest get_opts env0 after_call1
        [answer 405, answer 204, answer 405, answer 200])))
        [answer 405, answer 204, answer 405, answer 200] = [405, 204, 405]
   \<and> http405Count (fst (snd (makeProxyRequest get_opts env0 after_call1
        [answer 405, answer 204, answer 405, answer 200]))) = 5
   \<and> \<not> isProxyEnabled (fst (snd (makeProxyRequest get_opts env0 after_call1
        [answer 405, answer 204, answer 405, answer 200])))
   \<and> fst (makeProxyRequest get_opts env0 after_call1
        [answer 204, net_error ''refused'', timed_out, answer 200]) =
       Resolved \<lparr>status = 200, responseText = ''''\<rparr>
   \<and> http405Count (fst (snd (makeProxyRequest get_opts env0 after_call1
        [answer 204, net_error ''refused'', timed_out, answer 200]))) = 3"
proof -
  have s: "proxied_statuses (snd (snd (makeProxyRequest get_opts env0 after_call1
        [answer 405, answer 204, answer 405, answer 200])))
        [answer 405, answer 204, answer 405, answer 200] = [405, 204, 405]"
    by (simp add: proxied_statuses_sites trip_after_204)
  show ?thesis
    unfolding s by (simp add: run_eval)
qed

end
